theory Spec2Isabelle
  imports Complex_Main "HOL-Library.Sublist"
begin

section \<open>RetryExecutor: \<open>withRetries\<close> (apps/server/src/utils/retry.ts)\<close>

text \<open>
  A value caught by \<open>catch (err)\<close> is either an \<open>Error\<close> instance, carried with its
  message, or any other thrown value, carried as the text \<open>String(value)\<close>.
\<close>

datatype js_thrown = JsError string | JsOther string

text \<open>
  The final statement of \<open>withRetries\<close>:
  \<open>throw lastError instanceof Error ? lastError : new Error(String(lastError))\<close>.
  \<open>None\<close> is the initial \<open>undefined\<close> of \<open>lastError\<close>.
\<close>

fun rethrown :: "js_thrown option \<Rightarrow> js_thrown" where
  "rethrown (Some (JsError m)) = JsError m"
| "rethrown (Some (JsOther s)) = JsError s"
| "rethrown None = JsError ''undefined''"

text \<open>
  What \<open>withRetries\<close> does besides returning, in the order it does it: a call
  \<open>fn(attempt)\<close>, a \<open>console.warn\<close> (label, attempt, attempts, the caught value) and a
  sleep of \<open>delay\<close> milliseconds.
\<close>

datatype retry_event =
    Call int
  | Warn string int int js_thrown
  | Sleep int

text \<open>\<open>opts?.label ?? "withRetries"\<close> and \<open>opts?.baseDelayMs ?? 300\<close>.\<close>

record retry_opts =
  label :: "string option"
  baseDelayMs :: "int option"

definition label_of :: "retry_opts option \<Rightarrow> string" where
  "label_of opts =
     (case opts of None \<Rightarrow> ''withRetries''
      | Some p \<Rightarrow> (case label p of None \<Rightarrow> ''withRetries'' | Some l \<Rightarrow> l))"

definition baseDelayMs_of :: "retry_opts option \<Rightarrow> int" where
  "baseDelayMs_of opts =
     (case opts of None \<Rightarrow> 300
      | Some p \<Rightarrow> (case baseDelayMs p of None \<Rightarrow> 300 | Some d \<Rightarrow> d))"

text \<open>
  The \<open>for\<close> loop of \<open>withRetries\<close>, from the value \<open>attempt\<close> of its counter on.
  The operation is called at most once with each attempt number, so an operation with
  state of its own is still a function from the attempt number to what that call does:
  \<open>Inl\<close> the value it throws, \<open>Inr\<close> the value it returns. The result is what
  \<open>withRetries\<close> throws or returns, and the events so far.
\<close>

function withRetries_loop ::
  "int \<Rightarrow> (int \<Rightarrow> js_thrown + 'a) \<Rightarrow> retry_opts option \<Rightarrow>
   int \<Rightarrow> js_thrown option \<Rightarrow> retry_event list \<Rightarrow> (js_thrown + 'a) \<times> retry_event list" where
  "withRetries_loop attempts fn opts attempt lastError evs =
     (if attempt \<le> attempts then
        (case fn attempt of
           Inr v \<Rightarrow> (Inr v, evs @ [Call attempt])
         | Inl err \<Rightarrow>
             if attempt \<ge> attempts then (Inl (rethrown (Some err)), evs @ [Call attempt])
             else
               withRetries_loop attempts fn opts (attempt + 1) (Some err)
                 (evs @ [Call attempt,
                         Warn (label_of opts) attempt attempts err,
                         Sleep (baseDelayMs_of opts * 2 ^ nat (attempt - 1))]))
      else (Inl (rethrown lastError), evs))"
  by pat_completeness auto
termination
  by (relation "measure (\<lambda>(attempts, fn, opts, attempt, lastError, evs). nat (attempts + 1 - attempt))") auto

definition withRetries ::
  "int \<Rightarrow> (int \<Rightarrow> js_thrown + 'a) \<Rightarrow> retry_opts option \<Rightarrow> (js_thrown + 'a) \<times> retry_event list" where
  "withRetries attempts fn opts = withRetries_loop attempts fn opts 1 None []"

text \<open>Readings of the event list.\<close>

fun calls_of :: "retry_event list \<Rightarrow> int list" where
  "calls_of [] = []"
| "calls_of (Call n # es) = n # calls_of es"
| "calls_of (_ # es) = calls_of es"

fun warnings_of :: "retry_event list \<Rightarrow> (string \<times> int \<times> int \<times> js_thrown) list" where
  "warnings_of [] = []"
| "warnings_of (Warn l n m e # es) = (l, n, m, e) # warnings_of es"
| "warnings_of (_ # es) = warnings_of es"

fun sleeps_of :: "retry_event list \<Rightarrow> int list" where
  "sleeps_of [] = []"
| "sleeps_of (Sleep d # es) = d # sleeps_of es"
| "sleeps_of (_ # es) = sleeps_of es"

text \<open>The three events of a failed attempt that is followed by another one.\<close>

definition retry_round :: "(int \<Rightarrow> js_thrown + 'a) \<Rightarrow> retry_opts option \<Rightarrow> int \<Rightarrow> int \<Rightarrow> retry_event list" where
  "retry_round fn opts attempts j =
     [Call j, Warn (label_of opts) j attempts (projl (fn j)),
      Sleep (baseDelayMs_of opts * 2 ^ nat (j - 1))]"

text \<open>Two operations of the spec's test scenarios.\<close>

definition fails_twice_then :: "'a \<Rightarrow> int \<Rightarrow> js_thrown + 'a" where
  "fails_twice_then v attempt = (if attempt \<le> 2 then Inl (JsError ''boom'') else Inr v)"

definition always_fails :: "int \<Rightarrow> js_thrown + 'a" where
  "always_fails attempt = Inl (JsError ''boom'')"

section \<open>ConcurrencyLimiter: construction (utils/concurrency.ts)\<close>

text \<open>
  A JavaScript \<open>number\<close>: \<open>NaN\<close>, the two infinities, or a finite value. Every finite
  double is a rational number, so a finite value is carried as a \<open>rat\<close>.
\<close>

datatype js_number = JsNaN | JsPosInf | JsNegInf | JsFinite rat

text \<open>\<open>Number.isInteger\<close>: finite and without a fractional part.\<close>

fun Number_isInteger :: "js_number \<Rightarrow> bool" where
  "Number_isInteger (JsFinite q) = (of_int \<lfloor>q\<rfloor> = q)"
| "Number_isInteger _ = False"

text \<open>\<open>x <= 0\<close> on numbers: every comparison with \<open>NaN\<close> is false.\<close>

fun js_le_zero :: "js_number \<Rightarrow> bool" where
  "js_le_zero (JsFinite q) = (q \<le> 0)"
| "js_le_zero JsNegInf = True"
| "js_le_zero JsPosInf = False"
| "js_le_zero JsNaN = False"

datatype limiter_error = NotPositiveInteger js_number

text \<open>
  The state the closure of \<open>createConcurrencyLimiter\<close> holds: \<open>maxConcurrency\<close>,
  \<open>activeCount\<close> and the \<open>queue\<close> of the waiters' \<open>resolve\<close> functions, each named by
  the operation that waits. \<open>resumable\<close> are the waiters \<open>next\<close> has resolved whose
  continuation (the rest of \<open>limit\<close> after its first \<open>await\<close>) has not run yet: the
  promise jobs, in the order they were enqueued. \<open>executing\<close> are the operations between
  \<open>activeCount += 1\<close> and \<open>next()\<close>; \<open>admitted\<close> and \<open>settled\<close> are the history.
\<close>

datatype outcome = Fulfilled | Rejected

record limiter =
  maxConcurrency :: int
  activeCount :: int
  queue :: "nat list"
  resumable :: "nat list"
  executing :: "nat list"
  admitted :: "nat list"
  settled :: "(nat \<times> outcome) list"

definition createConcurrencyLimiter :: "js_number \<Rightarrow> limiter_error + limiter" where
  "createConcurrencyLimiter n =
     (if \<not> Number_isInteger n \<or> js_le_zero n then Inl (NotPositiveInteger n)
      else Inr \<lparr> maxConcurrency = (case n of JsFinite q \<Rightarrow> \<lfloor>q\<rfloor> | _ \<Rightarrow> 0),
                 activeCount = 0, queue = [], resumable = [], executing = [],
                 admitted = [], settled = [] \<rparr>)"

section \<open>ConcurrencyLimiter: \<open>limit\<close> and \<open>next\<close> (utils/concurrency.ts)\<close>

text \<open>
  The three places where the code of \<open>limit\<close> and \<open>next\<close> runs without interruption
  (JavaScript runs each job to its next \<open>await\<close>):
  \<^item> \<open>Submit t\<close>: the call \<open>limit(fn)\<close> for the operation \<open>t\<close>, up to its first \<open>await\<close>;
  \<^item> \<open>Settle t o\<close>: the promise of \<open>fn()\<close> has settled (fulfilled or rejected) and the
    rest of \<open>limit\<close> runs: the \<open>finally\<close> block calls \<open>next()\<close>;
  \<^item> \<open>Resume\<close>: the continuation of the first resolved waiter runs, from
    \<open>activeCount += 1\<close> to the call \<open>fn()\<close>.
\<close>

datatype limiter_event = Submit nat | Settle nat outcome | Resume

text \<open>\<open>next\<close>: \<open>activeCount -= 1; const run = queue.shift(); if (run) run();\<close>\<close>

definition limiter_next :: "limiter \<Rightarrow> limiter" where
  "limiter_next s =
     (let s1 = s\<lparr>activeCount := activeCount s - 1\<rparr>
      in case queue s1 of
           [] \<Rightarrow> s1
         | w # ws \<Rightarrow> s1\<lparr>queue := ws, resumable := resumable s1 @ [w]\<rparr>)"

text \<open>\<open>activeCount += 1\<close> and the call \<open>fn()\<close>: the operation starts to execute.\<close>

definition limiter_admit :: "nat \<Rightarrow> limiter \<Rightarrow> limiter" where
  "limiter_admit t s =
     s\<lparr>activeCount := activeCount s + 1, executing := executing s @ [t],
       admitted := admitted s @ [t]\<rparr>"

text \<open>
  One event; \<open>None\<close> when it cannot happen in this state: an operation is submitted
  once, only an executing operation settles, only a resolved waiter resumes.
\<close>

fun limiter_step :: "limiter_event \<Rightarrow> limiter \<Rightarrow> limiter option" where
  "limiter_step (Submit t) s =
     (if t \<in> set (admitted s @ resumable s @ queue s) then None
      else if activeCount s \<ge> maxConcurrency s then Some (s\<lparr>queue := queue s @ [t]\<rparr>)
      else Some (limiter_admit t s))"
| "limiter_step (Settle t out) s =
     (if t \<notin> set (executing s) then None
      else Some (limiter_next
             (s\<lparr>executing := removeAll t (executing s), settled := settled s @ [(t, out)]\<rparr>)))"
| "limiter_step Resume s =
     (case resumable s of
        [] \<Rightarrow> None
      | w # ws \<Rightarrow> Some (limiter_admit w (s\<lparr>resumable := ws\<rparr>)))"

fun limiter_run :: "limiter_event list \<Rightarrow> limiter \<Rightarrow> limiter option" where
  "limiter_run [] s = Some s"
| "limiter_run (e # es) s =
     (case limiter_step e s of None \<Rightarrow> None | Some s' \<Rightarrow> limiter_run es s')"

fun is_Submit :: "limiter_event \<Rightarrow> bool" where
  "is_Submit (Submit t) = True"
| "is_Submit _ = False"

definition new_limiter :: "int \<Rightarrow> limiter" where
  "new_limiter n = \<lparr> maxConcurrency = n, activeCount = 0, queue = [], resumable = [],
                     executing = [], admitted = [], settled = [] \<rparr>"

definition limiter_inv :: "int \<Rightarrow> nat list \<Rightarrow> limiter \<Rightarrow> bool" where
  "limiter_inv N ops s \<longleftrightarrow>
     maxConcurrency s = N \<and>
     activeCount s = int (length (executing s)) \<and>
     int (length (executing s) + length (resumable s)) \<le> N \<and>
     (queue s \<noteq> [] \<longrightarrow> int (length (executing s) + length (resumable s)) = N) \<and>
     admitted s @ resumable s @ queue s = ops \<and>
     distinct ops \<and>
     distinct (executing s @ map fst (settled s)) \<and>
     set (executing s) \<union> set (map fst (settled s)) = set (admitted s)"

definition limiter_potential :: "limiter \<Rightarrow> nat" where
  "limiter_potential s = 2 * length (queue s) + 2 * length (resumable s) + length (executing s)"

section \<open>Errors of the slide services and the stage runners\<close>

text \<open>
  The \<open>Error\<close> values these functions throw. The messages of the source are Chinese
  text; each constructor stands for one of them. \<open>External m\<close> is an error with the
  message \<open>m\<close> thrown by something outside (the image service, the file system).
  \<open>toErrorMessage(err)\<close> is \<open>err.message\<close>, which names the error, so the
  \<open>error_message\<close> column carries the error itself.
  \<^item> \<open>InvalidPath\<close>: \<open>ensureWithinProject\<close>;
  \<^item> \<open>SlideNotFound\<close>, \<open>VersionNotFound\<close>, \<open>NoPrompt\<close>: \<open>slideService.ts\<close>;
  \<^item> \<open>ThemeMissing\<close>, \<open>NoSlides\<close>, \<open>ContentMissing\<close>: \<open>generatePipeline.ts\<close>;
  \<^item> \<open>TypeError\<close>: the \<open>TypeError\<close> of JavaScript for a call on a value that has no such
    method (\<open>.map\<close> on what is no array, \<open>.trim()\<close> on what is no string);
  \<^item> \<open>ForeignKey\<close>: the error of an \<open>INSERT\<close> that \<open>FOREIGN KEY(slide_id) REFERENCES
    slides(id)\<close> refuses (\<open>PRAGMA foreign_keys = ON\<close> in the schema of projectDb.ts).
\<close>

datatype app_error =
    InvalidPath
  | SlideNotFound
  | VersionNotFound
  | NoPrompt
  | ThemeMissing
  | NoSlides
  | ContentMissing
  | TypeError
  | ForeignKey
  | External string

section \<open>Paths: \<open>ensureWithinProject\<close> (slideService.ts, exportService.ts)\<close>

text \<open>
  Node's \<open>path\<close> module on POSIX (\<open>path.sep\<close> is \<open>/\<close>), as far as
  \<open>ensureWithinProject\<close> uses it. \<open>split_on\<close> cuts a string at every separator.
\<close>

fun split_on :: "char \<Rightarrow> string \<Rightarrow> string list" where
  "split_on c [] = [[]]"
| "split_on c (x # xs) =
     (if x = c then [] # split_on c xs
      else (case split_on c xs of [] \<Rightarrow> [[x]] | s # ss \<Rightarrow> (x # s) # ss))"

text \<open>
  \<open>normalizeString\<close> of \<open>path.resolve\<close> (with \<open>allowAboveRoot = false\<close>): an empty
  segment and \<open>.\<close> are dropped, \<open>..\<close> removes the last segment kept so far (and
  nothing at the root), any other segment is kept.
\<close>

definition normalize_step :: "string list \<Rightarrow> string \<Rightarrow> string list" where
  "normalize_step acc seg =
     (if seg = [] \<or> seg = ''.'' then acc
      else if seg = ''..'' then butlast acc
      else acc @ [seg])"

definition normalizeString :: "string \<Rightarrow> string list" where
  "normalizeString p = foldl normalize_step [] (split_on CHR ''/'' p)"

text \<open>
  The loop of \<open>path.resolve\<close>, over its arguments from the last to the first and then
  \<open>process.cwd()\<close> (an absolute path): empty arguments are skipped, and it stops at the
  first absolute one.
\<close>

fun resolve_loop :: "string list \<Rightarrow> string \<Rightarrow> string \<Rightarrow> string" where
  "resolve_loop [] cwd resolvedPath = cwd @ ''/'' @ resolvedPath"
| "resolve_loop (p # ps) cwd resolvedPath =
     (if p = [] then resolve_loop ps cwd resolvedPath
      else if hd p = CHR ''/'' then p @ ''/'' @ resolvedPath
      else resolve_loop ps cwd (p @ ''/'' @ resolvedPath))"

fun join_segments :: "string list \<Rightarrow> string" where
  "join_segments [] = []"
| "join_segments [s] = s"
| "join_segments (s # t # ss) = s @ CHR ''/'' # join_segments (t # ss)"

definition resolved_segments :: "string \<Rightarrow> string list \<Rightarrow> string list" where
  "resolved_segments cwd args = normalizeString (resolve_loop (rev args) cwd [])"

definition path_resolve :: "string \<Rightarrow> string list \<Rightarrow> string" where
  "path_resolve cwd args = CHR ''/'' # join_segments (resolved_segments cwd args)"

text \<open>\<open>relPath.replace(/^\/+/, "").replace(/\\/g, "/")\<close>\<close>

definition clean_relPath :: "string \<Rightarrow> string" where
  "clean_relPath relPath =
     map (\<lambda>c. if c = CHR 0x5C then CHR ''/'' else c) (dropWhile (\<lambda>c. c = CHR ''/'') relPath)"

text \<open>
  \<open>ensureWithinProject\<close> (the same text in slideService.ts and exportService.ts);
  \<open>startsWith\<close> is \<open>prefix\<close>.
\<close>

definition ensureWithinProject :: "string \<Rightarrow> string \<Rightarrow> string \<Rightarrow> app_error + string" where
  "ensureWithinProject cwd projectRootPath relPath =
     (let cleaned = clean_relPath relPath;
          abs = path_resolve cwd [projectRootPath, cleaned];
          root = path_resolve cwd [projectRootPath]
      in if \<not> prefix (root @ ''/'') abs \<and> abs \<noteq> root then Inl InvalidPath else Inr abs)"

text \<open>
  An ordinary name of a directory entry: not empty, not \<open>.\<close> or \<open>..\<close>, without a
  separator. \<open>slashed\<close> writes a path from its segments.
\<close>

definition plain_segment :: "string \<Rightarrow> bool" where
  "plain_segment s \<longleftrightarrow> s \<noteq> [] \<and> s \<noteq> ''.'' \<and> s \<noteq> ''..'' \<and> CHR ''/'' \<notin> set s"

definition slashed :: "string list \<Rightarrow> string" where
  "slashed segs = concat (map (\<lambda>s. CHR ''/'' # s) segs)"

section \<open>The durable store and the file system\<close>

text \<open>
  The tables of \<open>projectDb.ts\<close> as lists of rows in insertion order. The \<open>id\<close> column
  of \<open>slide_image_versions\<close>, \<open>outline_versions\<close> and \<open>theme_versions\<close> (a
  \<open>randomUUID()\<close> nothing reads) and the time stamps (\<open>nowIso()\<close>) are left out.
  The \<open>status\<close> column holds one of six literals.
\<close>

datatype slide_status =
  Pending | Generating_text | Text_ready | Generating_image | Ready | Error

record slide_row =
  slide_id :: string
  project_id :: string
  section_index :: int
  slide_index :: int
  title :: string
  summary :: string
  content_json :: "string option"
  status :: slide_status
  error_message :: "app_error option"

record image_version_row =
  iv_slide_id :: string
  version :: int
  prompt_text :: string
  image_path :: string
  provider :: "string option"
  request_json :: "string option"
  response_json :: "string option"

record outline_slide =
  os_title :: string
  os_summary :: string

record outline_section =
  sec_title :: string
  sec_slides :: "outline_slide list"

type_synonym outline = "outline_section list"

record slide_content =
  bullets :: "string list"
  speakerNotes :: string
  imageDescription :: string

record theme =
  styleName :: string
  stylePrompt :: string

text \<open>
  The database of a project and the files under its root; a file is named by its
  absolute path and holds bytes.
\<close>

record world =
  db_slides :: "slide_row list"
  db_versions :: "image_version_row list"
  db_outlines :: "(string \<times> int \<times> outline) list"
  db_themes :: "(string \<times> int \<times> string) list"
  files :: "string \<rightharpoonup> string"

text \<open>
  A string is the UTF-8 encoding of the JavaScript string: a list of bytes. The names of
  files, the literals of the source that matter below and the decimal digits are ASCII,
  where a byte is a character; \<open>String.prototype.trim\<close> is the one function below that
  looks at characters outside ASCII.
\<close>

text \<open>
  A value that \<open>JSON.parse\<close> returns. The fields of an object are its own properties,
  each key once.
\<close>

datatype json =
    JNull
  | JBool bool
  | JNum js_number
  | JStr string
  | JArr "json list"
  | JObj "(string \<times> json) list"

text \<open>
  \<open>ToBoolean\<close> of such a value (the operands of \<open>&&\<close> and \<open>||\<close>), and the property read
  \<open>v.k\<close> on a value that is neither \<open>null\<close> nor \<open>undefined\<close>, for a key \<open>k\<close> that no
  prototype defines (\<open>bullets\<close>, \<open>imageDescription\<close>, \<open>stylePrompt\<close>, \<open>styleName\<close>); \<open>None\<close>
  is \<open>undefined\<close>.
\<close>

fun js_truthy :: "json \<Rightarrow> bool" where
  "js_truthy JNull = False"
| "js_truthy (JBool b) = b"
| "js_truthy (JNum n) = (case n of JsFinite q \<Rightarrow> q \<noteq> 0 | JsNaN \<Rightarrow> False | _ \<Rightarrow> True)"
| "js_truthy (JStr s) = (s \<noteq> [])"
| "js_truthy (JArr vs) = True"
| "js_truthy (JObj fs) = True"

fun js_get :: "json \<Rightarrow> string \<Rightarrow> json option" where
  "js_get (JObj fs) k = map_of fs k"
| "js_get _ k = None"

text \<open>
  What the functions below take from libraries and from the language:
  \<open>JSON.parse(raw)\<close> (\<open>None\<close> when it throws); \<open>String(v)\<close> as a template literal
  \<open>`${v}`\<close> computes it for a value that is no string;
  \<open>SlideContentSchema.parse(JSON.parse(raw))\<close> and the same for a theme (\<open>None\<close> when
  either throws); and \<open>buildSlidePrompt\<close> (promptBuilder.ts) on arguments of the types it
  declares, which joins the theme's style prompt, the title, the bullets and the image
  description with fixed Chinese prose and does not read the theme's \<open>styleName\<close>.
\<close>

record env =
  json_parse :: "string \<Rightarrow> json option"
  js_String :: "json \<Rightarrow> string"
  schema_content :: "string \<Rightarrow> slide_content option"
  schema_theme :: "string \<Rightarrow> theme option"
  buildSlidePrompt :: "theme \<Rightarrow> string \<Rightarrow> string list \<Rightarrow> string \<Rightarrow> string"

subsection \<open>Strings\<close>

text \<open>\<open>String(n)\<close> for an integer and \<open>padStart(4, "0")\<close>.\<close>

fun string_of_nat :: "nat \<Rightarrow> string" where
  "string_of_nat n =
     (if n < 10 then [''0123456789'' ! n]
      else string_of_nat (n div 10) @ [''0123456789'' ! (n mod 10)])"

definition string_of_int :: "int \<Rightarrow> string" where
  "string_of_int i = (if i < 0 then CHR ''-'' # string_of_nat (nat (- i)) else string_of_nat (nat i))"

definition pad4 :: "nat \<Rightarrow> string" where
  "pad4 n = replicate (4 - length (string_of_nat n)) CHR ''0'' @ string_of_nat n"

definition slideDirName :: "nat \<Rightarrow> string" where
  "slideDirName deckIndex = ''slide-'' @ pad4 (deckIndex + 1)"

text \<open>
  \<open>String.prototype.trim\<close> removes white space and line terminators from both ends:
  U+0009 to U+000D, U+0020, U+00A0, U+1680, U+2000 to U+200A, U+2028, U+2029, U+202F,
  U+205F, U+3000 and U+FEFF, here in UTF-8. A lead byte is no continuation byte, so the
  bytes at the end of a string are one of these characters exactly when they are its
  encoding.
\<close>

definition js_whitespace :: "string list" where
  "js_whitespace =
     [[CHR 0x09], [CHR 0x0A], [CHR 0x0B], [CHR 0x0C], [CHR 0x0D], [CHR 0x20],
      [CHR 0xC2, CHR 0xA0], [CHR 0xE1, CHR 0x9A, CHR 0x80],
      [CHR 0xE2, CHR 0x80, CHR 0x80], [CHR 0xE2, CHR 0x80, CHR 0x81],
      [CHR 0xE2, CHR 0x80, CHR 0x82], [CHR 0xE2, CHR 0x80, CHR 0x83],
      [CHR 0xE2, CHR 0x80, CHR 0x84], [CHR 0xE2, CHR 0x80, CHR 0x85],
      [CHR 0xE2, CHR 0x80, CHR 0x86], [CHR 0xE2, CHR 0x80, CHR 0x87],
      [CHR 0xE2, CHR 0x80, CHR 0x88], [CHR 0xE2, CHR 0x80, CHR 0x89],
      [CHR 0xE2, CHR 0x80, CHR 0x8A], [CHR 0xE2, CHR 0x80, CHR 0xA8],
      [CHR 0xE2, CHR 0x80, CHR 0xA9], [CHR 0xE2, CHR 0x80, CHR 0xAF],
      [CHR 0xE2, CHR 0x81, CHR 0x9F], [CHR 0xE3, CHR 0x80, CHR 0x80],
      [CHR 0xEF, CHR 0xBB, CHR 0xBF]]"

text \<open>\<open>strip ps s\<close> removes from the front of \<open>s\<close> the words of \<open>ps\<close>, as long as one is there.\<close>

function strip :: "string list \<Rightarrow> string \<Rightarrow> string" where
  "strip ps s =
     (case find (\<lambda>p. p \<noteq> [] \<and> prefix p s) ps of
        None \<Rightarrow> s
      | Some p \<Rightarrow> strip ps (drop (length p) s))"
  by pat_completeness auto
termination
  by (relation "measure (\<lambda>(ps, s). length s)") (auto simp: find_Some_iff prefix_def)

definition js_trim :: "string \<Rightarrow> string" where
  "js_trim s = rev (strip (map rev js_whitespace) (rev (strip js_whitespace s)))"

text \<open>
  \<open>toLowerCase\<close> on the letters of ASCII. A letter outside ASCII becomes a letter
  outside ASCII or, for the Kelvin sign, \<open>k\<close>; no literal \<open>mimeToExt\<close> compares with has
  either, so lowering the ASCII letters alone decides the comparisons.
\<close>

definition lower_char :: "char \<Rightarrow> char" where
  "lower_char c =
     (case map_of (zip ''ABCDEFGHIJKLMNOPQRSTUVWXYZ'' ''abcdefghijklmnopqrstuvwxyz'') c of
        None \<Rightarrow> c | Some l \<Rightarrow> l)"

text \<open>\<open>mimeToExt\<close> (imageResponse.ts).\<close>

definition mimeToExt :: "string option \<Rightarrow> string" where
  "mimeToExt mimeType =
     (let m = js_trim (map lower_char (case mimeType of None \<Rightarrow> [] | Some t \<Rightarrow> t))
      in if m = ''image/jpeg'' \<or> m = ''image/jpg'' then ''jpg''
         else if m = ''image/png'' then ''png''
         else if m = ''image/webp'' then ''webp''
         else if m = ''image/gif'' then ''gif''
         else if m = ''image/bmp'' then ''bmp''
         else if m = ''image/tiff'' then ''tiff''
         else ''png'')"

text \<open>
  \<open>path.extname\<close> on POSIX: the part of the last segment from its last dot on; empty
  when there is no dot, when the dot is the first character of the segment, and for
  \<open>..\<close>. Trailing separators are not part of the last segment.
\<close>

definition path_last_segment :: "string \<Rightarrow> string" where
  "path_last_segment p =
     rev (takeWhile (\<lambda>c. c \<noteq> CHR ''/'') (dropWhile (\<lambda>c. c = CHR ''/'') (rev p)))"

definition path_extname :: "string \<Rightarrow> string" where
  "path_extname p =
     (let b = path_last_segment p;
          after = rev (takeWhile (\<lambda>c. c \<noteq> CHR ''.'') (rev b));
          stem = take (length b - length after - 1) b
      in if CHR ''.'' \<notin> set b \<or> stem = [] \<or> b = ''..'' then []
         else CHR ''.'' # after)"

subsection \<open>Queries and statements\<close>

text \<open>
  \<open>setSlideStatus\<close> of slideService.ts, and the one of generatePipeline.ts, whose
  \<open>content_json = COALESCE(@content_json, content_json)\<close> keeps the old content when
  the patch has none.
\<close>

definition setSlideStatus :: "string \<Rightarrow> slide_status \<Rightarrow> app_error option \<Rightarrow> world \<Rightarrow> world" where
  "setSlideStatus slideId st errorMessage w =
     w\<lparr>db_slides :=
         map (\<lambda>r. if slide_id r = slideId
                  then r\<lparr>status := st, error_message := errorMessage\<rparr> else r)
             (db_slides w)\<rparr>"

definition setSlideStatus_patch ::
  "string \<Rightarrow> slide_status \<Rightarrow> app_error option \<Rightarrow> string option \<Rightarrow> world \<Rightarrow> world" where
  "setSlideStatus_patch slideId st errorMessage contentJson w =
     w\<lparr>db_slides :=
         map (\<lambda>r. if slide_id r = slideId
                  then r\<lparr>status := st, error_message := errorMessage,
                         content_json := (case contentJson of None \<Rightarrow> content_json r
                                          | Some c \<Rightarrow> Some c)\<rparr>
                  else r)
             (db_slides w)\<rparr>"

text \<open>\<open>SELECT ... FROM slides WHERE id = ? AND project_id = ?\<close>\<close>

definition find_slide :: "world \<Rightarrow> string \<Rightarrow> string \<Rightarrow> slide_row option" where
  "find_slide w slideId projectId =
     find (\<lambda>r. slide_id r = slideId \<and> project_id r = projectId) (db_slides w)"

text \<open>
  \<open>SELECT COUNT(1) FROM slides WHERE project_id = ? AND (section_index < ? OR
  (section_index = ? AND slide_index < ?))\<close>: the position of a slide in the deck.
\<close>

definition count_before :: "world \<Rightarrow> string \<Rightarrow> slide_row \<Rightarrow> nat" where
  "count_before w projectId s =
     length (filter (\<lambda>r. project_id r = projectId \<and>
                        (section_index r < section_index s \<or>
                         (section_index r = section_index s \<and> slide_index r < slide_index s)))
                    (db_slides w))"

definition versions_of :: "world \<Rightarrow> string \<Rightarrow> image_version_row list" where
  "versions_of w slideId = filter (\<lambda>v. iv_slide_id v = slideId) (db_versions w)"

text \<open>
  \<open>SELECT MAX(version) as v FROM slide_image_versions WHERE slide_id = ?\<close> (\<open>NULL\<close>
  without rows), and \<open>(row?.v ? Number(row.v) : 0) + 1\<close>, which every path that writes a
  version uses.
\<close>

definition max_version :: "world \<Rightarrow> string \<Rightarrow> int option" where
  "max_version w slideId =
     (case map version (versions_of w slideId) of
        [] \<Rightarrow> None
      | x # xs \<Rightarrow> Some (fold max xs x))"

definition next_image_version :: "world \<Rightarrow> string \<Rightarrow> int" where
  "next_image_version w slideId =
     (case max_version w slideId of None \<Rightarrow> 0 | Some v \<Rightarrow> if v \<noteq> 0 then v else 0) + 1"

text \<open>\<open>SELECT ... WHERE slide_id = ? ORDER BY version DESC LIMIT 1\<close>\<close>

definition latest_version_row :: "world \<Rightarrow> string \<Rightarrow> image_version_row option" where
  "latest_version_row w slideId =
     (case versions_of w slideId of
        [] \<Rightarrow> None
      | x # xs \<Rightarrow> Some (fold (\<lambda>v best. if version best < version v then v else best) xs x))"

text \<open>\<open>SELECT theme_json FROM theme_versions WHERE project_id = ? ORDER BY version DESC LIMIT 1\<close>\<close>

definition latest_theme_json :: "world \<Rightarrow> string \<Rightarrow> string option" where
  "latest_theme_json w projectId =
     (case filter (\<lambda>(p, v, t). p = projectId) (db_themes w) of
        [] \<Rightarrow> None
      | x # xs \<Rightarrow>
          Some (snd (snd (fold (\<lambda>r best. if fst (snd best) < fst (snd r) then r else best) xs x))))"

text \<open>
  \<open>INSERT INTO slide_image_versions\<close> of a row whose columns are all given. The table has
  \<open>FOREIGN KEY(slide_id) REFERENCES slides(id)\<close> and the schema sets \<open>PRAGMA foreign_keys =
  ON\<close>: the statement throws when no slide has the row's \<open>slide_id\<close>. The table has no
  constraint on \<open>(slide_id, version)\<close>.
\<close>

definition insert_image_version :: "image_version_row \<Rightarrow> world \<Rightarrow> app_error + world" where
  "insert_image_version row w =
     (if iv_slide_id row \<in> set (map slide_id (db_slides w))
      then Inr (w\<lparr>db_versions := db_versions w @ [row]\<rparr>)
      else Inl ForeignKey)"

text \<open>
  A statement can also fail for a reason of the store's own (a full disk, a locked or
  damaged file). \<open>store_faults\<close> says which of the statements that follow the awaited call
  of an operation do so, and with what error: the \<open>INSERT\<close>, the \<open>UPDATE\<close> that sets
  \<open>ready\<close>, the \<open>UPDATE\<close> that sets \<open>error\<close> in the \<open>catch\<close> block.
\<close>

record store_faults =
  insert_fault :: "app_error option"
  ready_fault :: "app_error option"
  error_fault :: "app_error option"

definition no_store_faults :: store_faults where
  "no_store_faults = \<lparr>insert_fault = None, ready_fault = None, error_fault = None\<rparr>"

text \<open>
  The callback that records a version, \<open>withProjectDb(root, (db) => { INSERT ...;
  setSlideStatus(db, id, "ready", ...) })\<close>: two statements and no transaction, so the
  row stays when the second statement throws. \<open>None\<close> is success.
\<close>

definition insert_then_ready ::
  "store_faults \<Rightarrow> image_version_row \<Rightarrow> (world \<Rightarrow> world) \<Rightarrow> world \<Rightarrow> app_error option \<times> world" where
  "insert_then_ready sf row mark_ready w =
     (case insert_fault sf of
        Some e \<Rightarrow> (Some e, w)
      | None \<Rightarrow>
          (case insert_image_version row w of
             Inl e \<Rightarrow> (Some e, w)
           | Inr w1 \<Rightarrow>
               (case ready_fault sf of
                  Some e \<Rightarrow> (Some e, w1)
                | None \<Rightarrow> (None, mark_ready w1))))"

text \<open>
  The \<open>catch\<close> block of slideService.ts, \<open>setSlideStatus(db, id, "error", msg); throw
  err\<close>: the error it throws and the store it leaves. When its own statement throws, that
  error is thrown and the status stays.
\<close>

definition catch_mark_error ::
  "store_faults \<Rightarrow> (app_error \<Rightarrow> world \<Rightarrow> world) \<Rightarrow> app_error \<Rightarrow> world \<Rightarrow> app_error \<times> world" where
  "catch_mark_error sf mark e w =
     (case error_fault sf of
        Some e' \<Rightarrow> (e', w)
      | None \<Rightarrow> (e, mark e w))"

section \<open>Image generation into the project (image/imageClient.ts)\<close>

text \<open>
  What the image service and the cache give to one call of \<open>generateImageToProject\<close>:
  \<^item> \<open>Service_failed e\<close>: the call throws before it writes anything (missing settings,
    a time-out, an HTTP error, a response without image data);
  \<^item> \<open>Image_data bytes mimeType request response\<close>: the image of the response (or of the
    cache), with the request and the truncated response it records;
  \<^item> \<open>Written_then_failed bytes mimeType e\<close>: the image file is written and a later step
    (writing the cache) throws.
\<close>

datatype image_response =
    Service_failed app_error
  | Image_data string "string option" string string
  | Written_then_failed string "string option" app_error

record image_gen_result =
  imagePath :: string
  requestJson :: string
  responseJson :: string

text \<open>
  \<open>path.posix.join("images", slideDirName(deckIndex), `v${version}.${ext}`)\<close>; none of
  the three parts is empty, \<open>.\<close> or \<open>..\<close>, so the join is the concatenation.
\<close>

definition image_rel_path :: "nat \<Rightarrow> int \<Rightarrow> string \<Rightarrow> string" where
  "image_rel_path deckIndex ver ext =
     ''images/'' @ slideDirName deckIndex @ ''/v'' @ string_of_int ver @ ''.'' @ ext"

text \<open>
  \<open>fs.writeFile(path.join(projectRootPath, "images", slideDir, fileName), bytes)\<close>: the
  file system resolves the path against the working directory.
\<close>

definition image_abs_path :: "string \<Rightarrow> string \<Rightarrow> nat \<Rightarrow> int \<Rightarrow> string \<Rightarrow> string" where
  "image_abs_path cwd projectRootPath deckIndex ver ext =
     path_resolve cwd [projectRootPath, ''images'', slideDirName deckIndex,
                       ''v'' @ string_of_int ver @ ''.'' @ ext]"

definition write_file :: "string \<Rightarrow> string \<Rightarrow> world \<Rightarrow> world" where
  "write_file p bytes w = w\<lparr>files := (files w)(p \<mapsto> bytes)\<rparr>"

definition generateImageToProject ::
  "string \<Rightarrow> string \<Rightarrow> nat \<Rightarrow> int \<Rightarrow> string \<Rightarrow> image_response \<Rightarrow> world \<Rightarrow>
   (app_error + image_gen_result) \<times> world" where
  "generateImageToProject cwd projectRootPath deckIndex ver promptText resp w =
     (case resp of
        Service_failed e \<Rightarrow> (Inl e, w)
      | Image_data bytes mimeType req res \<Rightarrow>
          (Inr \<lparr>imagePath = image_rel_path deckIndex ver (mimeToExt mimeType),
                requestJson = req, responseJson = res\<rparr>,
           write_file (image_abs_path cwd projectRootPath deckIndex ver (mimeToExt mimeType))
             bytes w)
      | Written_then_failed bytes mimeType e \<Rightarrow>
          (Inl e,
           write_file (image_abs_path cwd projectRootPath deckIndex ver (mimeToExt mimeType))
             bytes w))"

text \<open>
  The row the Images stage and \<open>regenerateSlideImage\<close> insert after a generation, and the
  one \<open>restoreSlideImageVersion\<close> inserts (\<open>request_json\<close> and \<open>response_json\<close> are
  \<open>NULL\<close>).
\<close>

definition generated_row :: "string \<Rightarrow> int \<Rightarrow> string \<Rightarrow> image_gen_result \<Rightarrow> image_version_row" where
  "generated_row slideId ver promptText img =
     \<lparr>iv_slide_id = slideId, version = ver, prompt_text = promptText,
      image_path = imagePath img, provider = Some ''vectorengine'',
      request_json = Some (requestJson img), response_json = Some (responseJson img)\<rparr>"

definition restored_row :: "string \<Rightarrow> int \<Rightarrow> string \<Rightarrow> string \<Rightarrow> image_version_row" where
  "restored_row slideId ver promptText destRelPath =
     \<lparr>iv_slide_id = slideId, version = ver, prompt_text = promptText,
      image_path = destRelPath, provider = Some ''restore'',
      request_json = None, response_json = None\<rparr>"

section \<open>\<open>regenerateSlideImage\<close> (slideService.ts)\<close>

text \<open>
  \<open>tryParseJson\<close>: \<open>null\<close> for no text, for blank text and when \<open>JSON.parse\<close> throws;
  otherwise the value parsed, whatever its shape.
\<close>

definition tryParseJson :: "env \<Rightarrow> string option \<Rightarrow> json option" where
  "tryParseJson ev raw =
     (case raw of None \<Rightarrow> None
      | Some r \<Rightarrow> if js_trim r = [] then None else json_parse ev r)"

text \<open>\<open>a || b\<close> on values that are a string or \<open>null\<close>: the empty string is falsy.\<close>

definition js_or :: "string option \<Rightarrow> string option \<Rightarrow> string option" where
  "js_or a b = (case a of Some (c # cs) \<Rightarrow> a | _ \<Rightarrow> b)"

text \<open>
  \<open>buildSlidePrompt\<close> as \<open>regenerateSlideImage\<close> calls it, on values that \<open>JSON.parse\<close>
  returned and nothing checked. It evaluates \<open>input.bullets.map(...)\<close>,
  \<open>input.theme.stylePrompt.trim()\<close> and \<open>input.imageDescription.trim()\<close>: a \<open>TypeError\<close>
  unless \<open>bullets\<close> is an array and the other two are strings. A bullet goes through the
  template literal \<open>`- ${b}`\<close>.
\<close>

definition js_template :: "env \<Rightarrow> json \<Rightarrow> string" where
  "js_template ev v = (case v of JStr s \<Rightarrow> s | _ \<Rightarrow> js_String ev v)"

definition buildSlidePrompt_unchecked ::
  "env \<Rightarrow> json \<Rightarrow> string \<Rightarrow> json option \<Rightarrow> json option \<Rightarrow> app_error + string" where
  "buildSlidePrompt_unchecked ev th slideTitle bs descr =
     (case bs of
        Some (JArr items) \<Rightarrow>
          (case js_get th ''stylePrompt'' of
             Some (JStr sp) \<Rightarrow>
               (case descr of
                  Some (JStr d) \<Rightarrow>
                    Inr (buildSlidePrompt ev
                           \<lparr>styleName = (case js_get th ''styleName'' of
                                           Some (JStr n) \<Rightarrow> n | _ \<Rightarrow> []),
                            stylePrompt = sp\<rparr>
                           slideTitle (map (js_template ev) items) d)
                | _ \<Rightarrow> Inl TypeError)
           | _ \<Rightarrow> Inl TypeError)
      | _ \<Rightarrow> Inl TypeError)"

record regenerate_resolved =
  rg_deckIndex :: nat
  rg_slideTitle :: string
  rg_slideSummary :: string
  rg_status :: slide_status
  rg_contentJson :: "json option"
  rg_latestPromptText :: "string option"
  rg_themeJson :: "json option"
  rg_nextVersion :: int

text \<open>The first \<open>withProjectDb\<close> callback: it throws when the slide is not in the project.\<close>

definition regenerate_resolve ::
  "env \<Rightarrow> string \<Rightarrow> string \<Rightarrow> world \<Rightarrow> app_error + regenerate_resolved" where
  "regenerate_resolve ev projectId slideId w =
     (case find_slide w slideId projectId of
        None \<Rightarrow> Inl SlideNotFound
      | Some slide \<Rightarrow>
          Inr \<lparr>rg_deckIndex = count_before w projectId slide,
                rg_slideTitle = title slide,
                rg_slideSummary = summary slide,
                rg_status = status slide,
                rg_contentJson = tryParseJson ev (content_json slide),
                rg_latestPromptText =
                  (case latest_version_row w slideId of
                     None \<Rightarrow> None
                   | Some l \<Rightarrow> if prompt_text l = [] then None else Some (prompt_text l)),
                rg_themeJson = tryParseJson ev (latest_theme_json w projectId),
                rg_nextVersion = next_image_version w slideId\<rparr>)"

text \<open>
  The two prompts computed after the callback. \<open>promptTextFromContent\<close> is built when
  both parsed values are truthy, and a \<open>TypeError\<close> of \<open>buildSlidePrompt\<close> ends the
  operation there, whatever the caller's prompt. Then the prompt: the caller's, else the
  one built from the content when the slide is \<open>text_ready\<close>, else the last recorded one,
  else the one built from the content.
\<close>

definition promptTextFromContent :: "env \<Rightarrow> regenerate_resolved \<Rightarrow> app_error + string option" where
  "promptTextFromContent ev resolved =
     (case (rg_themeJson resolved, rg_contentJson resolved) of
        (Some th, Some c) \<Rightarrow>
          if js_truthy th \<and> js_truthy c
          then (case buildSlidePrompt_unchecked ev th (rg_slideTitle resolved)
                       (js_get c ''bullets'') (js_get c ''imageDescription'') of
                  Inl e \<Rightarrow> Inl e
                | Inr p \<Rightarrow> Inr (Some p))
          else Inr None
      | _ \<Rightarrow> Inr None)"

definition regenerate_prompt ::
  "env \<Rightarrow> string option \<Rightarrow> regenerate_resolved \<Rightarrow> app_error + string" where
  "regenerate_prompt ev promptInput resolved =
     (let promptTextFromInput =
            js_or (case promptInput of None \<Rightarrow> None | Some p \<Rightarrow> Some (js_trim p)) None
      in case promptTextFromContent ev resolved of
           Inl e \<Rightarrow> Inl e
         | Inr fromContent \<Rightarrow>
             Inr (case js_or promptTextFromInput
                         (js_or (if rg_status resolved = Text_ready
                                 then js_or fromContent None else None)
                            (js_or (rg_latestPromptText resolved)
                               (js_or fromContent (Some [])))) of
                    None \<Rightarrow> [] | Some p \<Rightarrow> p))"

text \<open>
  An operation on a slide between its reads of the store and the settling of what it
  awaits: the values it holds then.
\<close>

record restore_resolved =
  rs_deckIndex :: nat
  rs_srcPromptText :: string
  rs_srcImagePath :: string
  rs_nextVersion :: int

record stage_slide =
  ss_id :: string
  ss_title :: string
  ss_content :: "slide_content option"
  ss_deckIndex :: nat

datatype inflight =
    Regenerating string regenerate_resolved string
  | Restoring string restore_resolved
  | Images_unit stage_slide int string

text \<open>
  \<open>regenerateSlideImage\<close> up to the call of the image service: it throws without
  touching the slide when the slide is missing, when \<open>buildSlidePrompt\<close> throws or when no
  prompt can be found, and marks the slide \<open>generating_image\<close> otherwise.
\<close>

definition regenerate_begin ::
  "env \<Rightarrow> string \<Rightarrow> string \<Rightarrow> string option \<Rightarrow> world \<Rightarrow> (app_error + inflight) \<times> world" where
  "regenerate_begin ev projectId slideId promptInput w =
     (case regenerate_resolve ev projectId slideId w of
        Inl e \<Rightarrow> (Inl e, w)
      | Inr resolved \<Rightarrow>
          (case regenerate_prompt ev promptInput resolved of
             Inl e \<Rightarrow> (Inl e, w)
           | Inr promptText \<Rightarrow>
               if promptText = [] then (Inl NoPrompt, w)
               else (Inr (Regenerating slideId resolved promptText),
                     setSlideStatus slideId Generating_image None w)))"

text \<open>
  The \<open>try\<close> block and its \<open>catch\<close>, once the image service has answered: the image is
  generated into the project, then the callback inserts the row and sets \<open>ready\<close>; an
  error of any of the three goes to the \<open>catch\<close> block.
\<close>

record slide_image_result =
  res_version :: int
  res_promptText :: string
  res_imagePath :: string

definition regenerate_finish ::
  "store_faults \<Rightarrow> string \<Rightarrow> string \<Rightarrow> string \<Rightarrow> regenerate_resolved \<Rightarrow> string \<Rightarrow>
   image_response \<Rightarrow> world \<Rightarrow> (app_error + slide_image_result) \<times> world" where
  "regenerate_finish sf cwd projectRootPath slideId resolved promptText resp w =
     (case generateImageToProject cwd projectRootPath (rg_deckIndex resolved)
             (rg_nextVersion resolved) promptText resp w of
        (Inl e, w1) \<Rightarrow>
          apfst Inl (catch_mark_error sf (\<lambda>e. setSlideStatus slideId Error (Some e)) e w1)
      | (Inr img, w1) \<Rightarrow>
          (case insert_then_ready sf
                  (generated_row slideId (rg_nextVersion resolved) promptText img)
                  (setSlideStatus slideId Ready None) w1 of
             (None, w2) \<Rightarrow>
               (Inr \<lparr>res_version = rg_nextVersion resolved, res_promptText = promptText,
                     res_imagePath = imagePath img\<rparr>, w2)
           | (Some e, w2) \<Rightarrow>
               apfst Inl (catch_mark_error sf (\<lambda>e. setSlideStatus slideId Error (Some e)) e w2)))"


section \<open>\<open>restoreSlideImageVersion\<close> (slideService.ts)\<close>

definition restore_resolve ::
  "string \<Rightarrow> string \<Rightarrow> int \<Rightarrow> world \<Rightarrow> app_error + restore_resolved" where
  "restore_resolve projectId slideId ver w =
     (case find_slide w slideId projectId of
        None \<Rightarrow> Inl SlideNotFound
      | Some slide \<Rightarrow>
          (case find (\<lambda>v. iv_slide_id v = slideId \<and> version v = ver) (db_versions w) of
             None \<Rightarrow> Inl VersionNotFound
           | Some src \<Rightarrow>
               Inr \<lparr>rs_deckIndex = count_before w projectId slide,
                     rs_srcPromptText = prompt_text src,
                     rs_srcImagePath = image_path src,
                     rs_nextVersion = next_image_version w slideId\<rparr>))"

definition restore_begin ::
  "string \<Rightarrow> string \<Rightarrow> int \<Rightarrow> world \<Rightarrow> (app_error + inflight) \<times> world" where
  "restore_begin projectId slideId ver w =
     (case restore_resolve projectId slideId ver w of
        Inl e \<Rightarrow> (Inl e, w)
      | Inr resolved \<Rightarrow>
          (Inr (Restoring slideId resolved), setSlideStatus slideId Generating_image None w))"

text \<open>
  \<open>path.extname(srcImagePath).replace(".", "") || "png"\<close> and the destination under the
  next version number.
\<close>

definition restore_ext :: "string \<Rightarrow> string" where
  "restore_ext srcImagePath =
     (let e = remove1 CHR ''.'' (path_extname srcImagePath) in if e = [] then ''png'' else e)"

definition restore_dest :: "restore_resolved \<Rightarrow> string" where
  "restore_dest resolved =
     image_rel_path (rs_deckIndex resolved) (rs_nextVersion resolved)
       (restore_ext (rs_srcImagePath resolved))"

text \<open>
  The file part of the \<open>try\<close> block: both paths pass \<open>ensureWithinProject\<close>, then
  \<open>fs.mkdir\<close> and \<open>fs.copyFile\<close>. \<open>fault\<close> is an error of the file system's own (no
  permission, a full disk); a missing source file is \<open>ENOENT\<close>.
\<close>

definition restore_copy ::
  "string \<Rightarrow> string \<Rightarrow> restore_resolved \<Rightarrow> app_error option \<Rightarrow> world \<Rightarrow>
   (app_error + string) \<times> world" where
  "restore_copy cwd projectRootPath resolved fault w =
     (case ensureWithinProject cwd projectRootPath (rs_srcImagePath resolved) of
        Inl e \<Rightarrow> (Inl e, w)
      | Inr absSrc \<Rightarrow>
          (case ensureWithinProject cwd projectRootPath (restore_dest resolved) of
             Inl e \<Rightarrow> (Inl e, w)
           | Inr absDest \<Rightarrow>
               (case fault of
                  Some e \<Rightarrow> (Inl e, w)
                | None \<Rightarrow>
                    (case files w absSrc of
                       None \<Rightarrow> (Inl (External ''ENOENT''), w)
                     | Some bytes \<Rightarrow> (Inr (restore_dest resolved), write_file absDest bytes w)))))"

text \<open>
  The \<open>try\<close> block of \<open>restoreSlideImageVersion\<close> and its \<open>catch\<close>: the copy, then the
  callback that inserts the row and sets \<open>ready\<close>.
\<close>

definition restore_finish ::
  "store_faults \<Rightarrow> string \<Rightarrow> string \<Rightarrow> string \<Rightarrow> restore_resolved \<Rightarrow> app_error option \<Rightarrow>
   world \<Rightarrow> (app_error + slide_image_result) \<times> world" where
  "restore_finish sf cwd projectRootPath slideId resolved fault w =
     (case restore_copy cwd projectRootPath resolved fault w of
        (Inl e, w1) \<Rightarrow>
          apfst Inl (catch_mark_error sf (\<lambda>e. setSlideStatus slideId Error (Some e)) e w1)
      | (Inr destRelPath, w1) \<Rightarrow>
          (case insert_then_ready sf
                  (restored_row slideId (rs_nextVersion resolved) (rs_srcPromptText resolved)
                     destRelPath)
                  (setSlideStatus slideId Ready None) w1 of
             (None, w2) \<Rightarrow>
               (Inr \<lparr>res_version = rs_nextVersion resolved,
                     res_promptText = rs_srcPromptText resolved,
                     res_imagePath = destRelPath\<rparr>, w2)
           | (Some e, w2) \<Rightarrow>
               apfst Inl (catch_mark_error sf (\<lambda>e. setSlideStatus slideId Error (Some e)) e w2)))"

definition restoreSlideImageVersion_sf ::
  "store_faults \<Rightarrow> string \<Rightarrow> string \<Rightarrow> string \<Rightarrow> string \<Rightarrow> int \<Rightarrow> app_error option \<Rightarrow>
   world \<Rightarrow> (app_error + slide_image_result) \<times> world" where
  "restoreSlideImageVersion_sf sf cwd projectRootPath projectId slideId ver fault w =
     (case restore_begin projectId slideId ver w of
        (Inr (Restoring sid resolved), w1) \<Rightarrow>
          restore_finish sf cwd projectRootPath sid resolved fault w1
      | (Inr _, w1) \<Rightarrow> (Inl SlideNotFound, w1)
      | (Inl e, w1) \<Rightarrow> (Inl e, w1))"

text \<open>\<open>restoreSlideImageVersion\<close> on a store that answers every statement.\<close>

definition restoreSlideImageVersion ::
  "string \<Rightarrow> string \<Rightarrow> string \<Rightarrow> string \<Rightarrow> int \<Rightarrow> app_error option \<Rightarrow> world \<Rightarrow>
   (app_error + slide_image_result) \<times> world" where
  "restoreSlideImageVersion cwd projectRootPath projectId slideId ver fault w =
     restoreSlideImageVersion_sf no_store_faults cwd projectRootPath projectId slideId ver fault w"

section \<open>The Images stage (jobs/generatePipeline.ts)\<close>

text \<open>The job of jobStore.ts; \<open>updateJob\<close> replaces the fields of its patch.\<close>

datatype job_status = Queued | Running | Completed | Failed

datatype step_name = Step_style | Step_outline | Step_content | Step_images | Step_slides

record job_progress =
  step :: step_name
  totalSlides :: nat
  completedSlides :: nat
  failedSlides :: nat

record job =
  job_projectId :: string
  job_state :: job_status
  job_finished :: bool
  job_progress :: "job_progress option"
  job_error :: "app_error option"

text \<open>\<open>tryParseSlideContent\<close>: \<open>null\<close> for no text, empty text and content that does not parse.\<close>

definition tryParseSlideContent :: "env \<Rightarrow> string option \<Rightarrow> slide_content option" where
  "tryParseSlideContent ev raw =
     (case raw of None \<Rightarrow> None
      | Some r \<Rightarrow> if r = [] then None else schema_content ev r)"

text \<open>
  \<open>requireLatestTheme\<close>: \<open>getLatestTheme\<close> is \<open>safeParseJson\<close> of the latest row with
  \<open>ThemeSchema\<close>; without a theme the stage throws.
\<close>

definition requireLatestTheme :: "env \<Rightarrow> string \<Rightarrow> world \<Rightarrow> app_error + theme" where
  "requireLatestTheme ev projectId w =
     (case latest_theme_json w projectId of
        None \<Rightarrow> Inl ThemeMissing
      | Some raw \<Rightarrow>
          if raw = [] then Inl ThemeMissing
          else (case schema_theme ev raw of None \<Rightarrow> Inl ThemeMissing | Some t \<Rightarrow> Inr t))"

text \<open>
  \<open>SELECT ... FROM slides WHERE project_id = ? ORDER BY section_index ASC,
  slide_index ASC\<close>, by insertion into an ordered list; \<open>deckIndex\<close> is the position.
\<close>

definition slide_le :: "slide_row \<Rightarrow> slide_row \<Rightarrow> bool" where
  "slide_le a b \<longleftrightarrow>
     section_index a < section_index b \<or>
     (section_index a = section_index b \<and> slide_index a \<le> slide_index b)"

fun insert_slide :: "slide_row \<Rightarrow> slide_row list \<Rightarrow> slide_row list" where
  "insert_slide r [] = [r]"
| "insert_slide r (x # xs) = (if slide_le r x then r # x # xs else x # insert_slide r xs)"

definition ordered_slides :: "world \<Rightarrow> string \<Rightarrow> slide_row list" where
  "ordered_slides w projectId =
     foldr insert_slide (filter (\<lambda>r. project_id r = projectId) (db_slides w)) []"

definition stage_slides :: "env \<Rightarrow> world \<Rightarrow> string \<Rightarrow> stage_slide list" where
  "stage_slides ev w projectId =
     map (\<lambda>(idx, r). \<lparr>ss_id = slide_id r, ss_title = title r,
                       ss_content = tryParseSlideContent ev (content_json r),
                       ss_deckIndex = idx\<rparr>)
         (enumerate 0 (ordered_slides w projectId))"

text \<open>
  One unit of the stage, for the slide \<open>s\<close>, up to the call of the image service. Without
  content it throws at once and its \<open>catch\<close> marks the slide \<open>error\<close>.
\<close>

definition images_unit_begin ::
  "env \<Rightarrow> theme \<Rightarrow> stage_slide \<Rightarrow> world \<Rightarrow> (app_error + inflight) \<times> world" where
  "images_unit_begin ev th s w =
     (case ss_content s of
        None \<Rightarrow>
          (Inl ContentMissing, setSlideStatus_patch (ss_id s) Error (Some ContentMissing) None w)
      | Some c \<Rightarrow>
          (let promptText = buildSlidePrompt ev th (ss_title s) (bullets c) (imageDescription c);
               w1 = setSlideStatus_patch (ss_id s) Generating_image None None w
           in (Inr (Images_unit s (next_image_version w1 (ss_id s)) promptText), w1)))"

text \<open>
  The rest of the unit once the image service has answered: the callback that inserts
  the row and sets \<open>ready\<close>, and the \<open>catch\<close> block, which counts the failure and sets
  \<open>error\<close>. \<open>Inr None\<close> is success, \<open>Inr (Some e)\<close> a failure the unit has caught; when the
  statement of the \<open>catch\<close> block throws, the unit itself rejects (\<open>Inl\<close>).
\<close>

definition images_unit_catch ::
  "store_faults \<Rightarrow> stage_slide \<Rightarrow> app_error \<Rightarrow> world \<Rightarrow> (app_error + app_error option) \<times> world" where
  "images_unit_catch sf s e w =
     (case error_fault sf of
        Some e' \<Rightarrow> (Inl e', w)
      | None \<Rightarrow> (Inr (Some e), setSlideStatus_patch (ss_id s) Error (Some e) None w))"

definition images_unit_finish_sf ::
  "store_faults \<Rightarrow> string \<Rightarrow> string \<Rightarrow> stage_slide \<Rightarrow> int \<Rightarrow> string \<Rightarrow> image_response \<Rightarrow>
   world \<Rightarrow> (app_error + app_error option) \<times> world" where
  "images_unit_finish_sf sf cwd projectRootPath s ver promptText resp w =
     (case generateImageToProject cwd projectRootPath (ss_deckIndex s) ver promptText resp w of
        (Inl e, w1) \<Rightarrow> images_unit_catch sf s e w1
      | (Inr img, w1) \<Rightarrow>
          (case insert_then_ready sf (generated_row (ss_id s) ver promptText img)
                  (setSlideStatus_patch (ss_id s) Ready None None) w1 of
             (None, w2) \<Rightarrow> (Inr None, w2)
           | (Some e, w2) \<Rightarrow> images_unit_catch sf s e w2))"

text \<open>
  The same on a store that answers every statement, where the unit never rejects:
  \<open>None\<close> is success.
\<close>

definition images_unit_finish ::
  "string \<Rightarrow> string \<Rightarrow> stage_slide \<Rightarrow> int \<Rightarrow> string \<Rightarrow> image_response \<Rightarrow> world \<Rightarrow>
   app_error option \<times> world" where
  "images_unit_finish cwd projectRootPath s ver promptText resp w =
     (case images_unit_finish_sf no_store_faults cwd projectRootPath s ver promptText resp w of
        (Inr r, w1) \<Rightarrow> (r, w1)
      | (Inl e, w1) \<Rightarrow> (Some e, w1))"

text \<open>
  The variables of a running stage: the store and files, the job, the two counters of
  the closure, and the units that wait for the image service.
\<close>

record images_run =
  ir_world :: world
  ir_job :: job
  ir_completed :: nat
  ir_failed :: nat
  ir_waiting :: "inflight list"

definition report_progress :: "nat \<Rightarrow> images_run \<Rightarrow> images_run" where
  "report_progress nslides st =
     st\<lparr>ir_job := (ir_job st)\<lparr>job_progress :=
           Some \<lparr>step = Step_images, totalSlides = nslides,
                 completedSlides = ir_completed st, failedSlides = ir_failed st\<rparr>\<rparr>\<rparr>"

definition stage_unit_begin :: "env \<Rightarrow> theme \<Rightarrow> nat \<Rightarrow> stage_slide \<Rightarrow> images_run \<Rightarrow> images_run" where
  "stage_unit_begin ev th nslides s st =
     (case images_unit_begin ev th s (ir_world st) of
        (Inl e, w1) \<Rightarrow> report_progress nslides (st\<lparr>ir_world := w1, ir_failed := ir_failed st + 1\<rparr>)
      | (Inr f, w1) \<Rightarrow> st\<lparr>ir_world := w1, ir_waiting := ir_waiting st @ [f]\<rparr>)"

definition stage_unit_finish ::
  "string \<Rightarrow> string \<Rightarrow> nat \<Rightarrow> (nat \<Rightarrow> image_response) \<Rightarrow> inflight \<Rightarrow> images_run \<Rightarrow> images_run" where
  "stage_unit_finish cwd projectRootPath nslides resp f st =
     (case f of
        Images_unit s ver promptText \<Rightarrow>
          (case images_unit_finish cwd projectRootPath s ver promptText (resp (ss_deckIndex s))
                  (ir_world st) of
             (None, w1) \<Rightarrow>
               report_progress nslides (st\<lparr>ir_world := w1, ir_completed := ir_completed st + 1\<rparr>)
           | (Some e, w1) \<Rightarrow>
               report_progress nslides (st\<lparr>ir_world := w1, ir_failed := ir_failed st + 1\<rparr>))
      | _ \<Rightarrow> st)"

definition unit_index :: "inflight \<Rightarrow> nat" where
  "unit_index f = (case f of Images_unit s ver promptText \<Rightarrow> ss_deckIndex s | _ \<Rightarrow> 0)"

text \<open>
  The waiting units settle in any order: first those that \<open>order\<close> names (by deck index),
  in that order, then the others. A unit settles once.
\<close>

fun settle_in_order ::
  "string \<Rightarrow> string \<Rightarrow> nat \<Rightarrow> (nat \<Rightarrow> image_response) \<Rightarrow> nat list \<Rightarrow> images_run \<Rightarrow> images_run" where
  "settle_in_order cwd rootPath nslides resp [] st =
     (fold (stage_unit_finish cwd rootPath nslides resp) (ir_waiting st) st)\<lparr>ir_waiting := []\<rparr>"
| "settle_in_order cwd rootPath nslides resp (i # order) st =
     (case find (\<lambda>f. unit_index f = i) (ir_waiting st) of
        None \<Rightarrow> settle_in_order cwd rootPath nslides resp order st
      | Some f \<Rightarrow>
          settle_in_order cwd rootPath nslides resp order
            (stage_unit_finish cwd rootPath nslides resp f
               (st\<lparr>ir_waiting := remove1 f (ir_waiting st)\<rparr>)))"

definition runGenerateImagesStep ::
  "env \<Rightarrow> string \<Rightarrow> string \<Rightarrow> nat list \<Rightarrow> (nat \<Rightarrow> image_response) \<Rightarrow> job \<Rightarrow> world \<Rightarrow>
   (app_error + unit) \<times> job \<times> world" where
  "runGenerateImagesStep ev cwd projectRootPath order resp jb w =
     (let jb1 = jb\<lparr>job_state := Running,
                    job_progress := Some \<lparr>step = Step_images, totalSlides = 0,
                                          completedSlides = 0, failedSlides = 0\<rparr>\<rparr>
      in case requireLatestTheme ev (job_projectId jb) w of
           Inl e \<Rightarrow> (Inl e, jb1, w)
         | Inr th \<Rightarrow>
             (let slides = stage_slides ev w (job_projectId jb)
              in if slides = [] then (Inl NoSlides, jb1, w)
                 else
                   (let nslides = length slides;
                        st0 = \<lparr>ir_world = w,
                               ir_job = jb1\<lparr>job_progress :=
                                  Some \<lparr>step = Step_images, totalSlides = nslides,
                                        completedSlides = 0, failedSlides = 0\<rparr>\<rparr>,
                               ir_completed = 0, ir_failed = 0, ir_waiting = []\<rparr>;
                        st1 = fold (stage_unit_begin ev th nslides) slides st0;
                        st2 = settle_in_order cwd projectRootPath nslides resp order st1
                    in (Inr (),
                        (ir_job st2)\<lparr>job_state := Completed, job_finished := True,
                                     job_progress :=
                                       Some \<lparr>step = Step_images, totalSlides = nslides,
                                             completedSlides = ir_completed st2,
                                             failedSlides = ir_failed st2\<rparr>\<rparr>,
                        ir_world st2))))"

text \<open>
  The route \<open>POST .../generate/images\<close> (server.ts) runs the stage and marks the job
  \<open>failed\<close> when the stage throws.
\<close>

definition images_job ::
  "env \<Rightarrow> string \<Rightarrow> string \<Rightarrow> nat list \<Rightarrow> (nat \<Rightarrow> image_response) \<Rightarrow> job \<Rightarrow> world \<Rightarrow> job \<times> world" where
  "images_job ev cwd projectRootPath order resp jb w =
     (case runGenerateImagesStep ev cwd projectRootPath order resp jb w of
        (Inl e, jb1, w1) \<Rightarrow>
          (jb1\<lparr>job_state := Failed, job_finished := True, job_error := Some e\<rparr>, w1)
      | (Inr u, jb1, w1) \<Rightarrow> (jb1, w1))"

section \<open>The Outline stage (jobs/generatePipeline.ts)\<close>

text \<open>\<open>nextVersion(db, "outline_versions", projectId)\<close>\<close>

definition next_outline_version :: "world \<Rightarrow> string \<Rightarrow> int" where
  "next_outline_version w projectId =
     (case map (\<lambda>(p, v, ol). v) (filter (\<lambda>(p, v, ol). p = projectId) (db_outlines w)) of
        [] \<Rightarrow> 0
      | x # xs \<Rightarrow> (if fold max xs x \<noteq> 0 then fold max xs x else 0)) + 1"

text \<open>
  \<open>clearSlides\<close>: one \<open>DELETE FROM slide_image_versions WHERE slide_id = ?\<close> for each
  slide of the project, then \<open>DELETE FROM slides WHERE project_id = ?\<close>.
\<close>

definition delete_versions_of :: "string \<Rightarrow> world \<Rightarrow> world" where
  "delete_versions_of slideId w =
     w\<lparr>db_versions := filter (\<lambda>v. iv_slide_id v \<noteq> slideId) (db_versions w)\<rparr>"

definition clearSlides :: "string \<Rightarrow> world \<Rightarrow> world" where
  "clearSlides projectId w =
     (let slideIds = map slide_id (filter (\<lambda>r. project_id r = projectId) (db_slides w));
          w1 = fold delete_versions_of slideIds w
      in w1\<lparr>db_slides := filter (\<lambda>r. project_id r \<noteq> projectId) (db_slides w1)\<rparr>)"

text \<open>
  The rows of the two nested \<open>forEach\<close> loops over the sections and their slides;
  \<open>uuid k\<close> is the \<open>randomUUID()\<close> drawn for the slide at deck index \<open>k\<close>.
\<close>

definition new_slide_row :: "string \<Rightarrow> string \<Rightarrow> nat \<Rightarrow> nat \<Rightarrow> outline_slide \<Rightarrow> slide_row" where
  "new_slide_row newId projectId sectionIndex slideIndex sl =
     \<lparr>slide_id = newId, project_id = projectId,
      section_index = int sectionIndex, slide_index = int slideIndex,
      title = os_title sl, summary = os_summary sl, content_json = None,
      status = Pending, error_message = None\<rparr>"

fun insert_sections ::
  "(nat \<Rightarrow> string) \<Rightarrow> string \<Rightarrow> nat \<Rightarrow> nat \<Rightarrow> outline_section list \<Rightarrow> slide_row list" where
  "insert_sections uuid projectId sectionIndex deckIndex [] = []"
| "insert_sections uuid projectId sectionIndex deckIndex (sec # secs) =
     map (\<lambda>(slideIndex, sl).
            new_slide_row (uuid (deckIndex + slideIndex)) projectId sectionIndex slideIndex sl)
         (enumerate 0 (sec_slides sec))
     @ insert_sections uuid projectId (sectionIndex + 1)
         (deckIndex + length (sec_slides sec)) secs"

text \<open>
  The \<open>withProjectDb\<close> callback of \<open>runGenerateOutlineStep\<close>: the next outline version,
  \<open>clearSlides\<close>, the outline row, the slide rows; it returns the number of slides.
\<close>

definition commit_outline :: "(nat \<Rightarrow> string) \<Rightarrow> string \<Rightarrow> outline \<Rightarrow> world \<Rightarrow> nat \<times> world" where
  "commit_outline uuid projectId ol w =
     (let outlineVersion = next_outline_version w projectId;
          w1 = clearSlides projectId w;
          w2 = w1\<lparr>db_outlines := db_outlines w1 @ [(projectId, outlineVersion, ol)]\<rparr>;
          rows = insert_sections uuid projectId 0 0 ol
      in (length rows, w2\<lparr>db_slides := db_slides w2 @ rows\<rparr>))"

text \<open>
  \<open>runGenerateOutlineStep\<close>: \<open>generated\<close> is what comes before the commit, the outline
  of the text service or the error that ends the stage.
\<close>

definition runGenerateOutlineStep ::
  "(nat \<Rightarrow> string) \<Rightarrow> app_error + outline \<Rightarrow> job \<Rightarrow> world \<Rightarrow> (app_error + unit) \<times> job \<times> world" where
  "runGenerateOutlineStep uuid generated jb w =
     (let jb1 = jb\<lparr>job_state := Running,
                    job_progress := Some \<lparr>step = Step_outline, totalSlides = 0,
                                          completedSlides = 0, failedSlides = 0\<rparr>\<rparr>
      in case generated of
           Inl e \<Rightarrow> (Inl e, jb1, w)
         | Inr ol \<Rightarrow>
             (case commit_outline uuid (job_projectId jb) ol w of
                (slideCount, w1) \<Rightarrow>
                  (Inr (),
                   jb1\<lparr>job_state := Completed, job_finished := True,
                       job_progress := Some \<lparr>step = Step_outline, totalSlides = slideCount,
                                             completedSlides = slideCount, failedSlides = 0\<rparr>\<rparr>,
                   w1)))"

text \<open>
  What the stage is expected to leave behind. A unit fails when its slide has no
  content or when its image call fails; a slide whose unit failed is \<open>error\<close> with the
  message, any other is \<open>ready\<close>.
\<close>

definition response_error :: "image_response \<Rightarrow> app_error option" where
  "response_error resp =
     (case resp of
        Service_failed e \<Rightarrow> Some e
      | Image_data bytes mimeType req res \<Rightarrow> None
      | Written_then_failed bytes mimeType e \<Rightarrow> Some e)"


definition final_slide :: "app_error option \<Rightarrow> slide_row \<Rightarrow> slide_row" where
  "final_slide err r =
     (case err of
        None \<Rightarrow> r\<lparr>status := Ready, error_message := None\<rparr>
      | Some e \<Rightarrow> r\<lparr>status := Error, error_message := Some e\<rparr>)"

subsection \<open>One row under the marks of the units\<close>


definition mark_end :: "(nat \<Rightarrow> image_response) \<Rightarrow> inflight \<Rightarrow> slide_row \<Rightarrow> slide_row" where
  "mark_end resp f r =
     (case f of
        Images_unit s ver promptText \<Rightarrow>
          if slide_id r = ss_id s then final_slide (response_error (resp (ss_deckIndex s))) r
          else r
      | _ \<Rightarrow> r)"

definition unit_ok :: "(nat \<Rightarrow> image_response) \<Rightarrow> inflight \<Rightarrow> bool" where
  "unit_ok resp f =
     (case f of Images_unit s ver promptText \<Rightarrow> response_error (resp (ss_deckIndex s)) = None
      | _ \<Rightarrow> False)"

definition unit_bad :: "(nat \<Rightarrow> image_response) \<Rightarrow> inflight \<Rightarrow> bool" where
  "unit_bad resp f =
     (case f of Images_unit s ver promptText \<Rightarrow> response_error (resp (ss_deckIndex s)) \<noteq> None
      | _ \<Rightarrow> False)"

text \<open>
  The unit that waits for the image service once the unit of \<open>s\<close> has started on the
  store \<open>w\<close>.
\<close>

definition unit_of :: "env \<Rightarrow> theme \<Rightarrow> world \<Rightarrow> stage_slide \<Rightarrow> inflight" where
  "unit_of ev th w s =
     Images_unit s (next_image_version w (ss_id s))
       (case ss_content s of
          None \<Rightarrow> []
        | Some c \<Rightarrow> buildSlidePrompt ev th (ss_title s) (bullets c) (imageDescription c))"

section \<open>What a failure leaves behind\<close>

text \<open>
  The second half of an operation is a \<open>try\<close> block of three steps: something produces
  the image file (the generation, the copy), the \<open>INSERT\<close> records the row, the \<open>UPDATE\<close>
  sets \<open>ready\<close>.
  \<^item> \<open>first_failure sf produced present\<close> is the error that ends the \<open>try\<close> block, if any:
    \<open>produced\<close> is the error of the first step, \<open>present\<close> says that the slide row is
    there when the \<open>INSERT\<close> runs.
  \<^item> \<open>row_recorded sf produced present\<close> says that the \<open>INSERT\<close> has run and succeeded.
  \<^item> \<open>thrown sf e\<close> is what the operation throws when its \<open>try\<close> block ended with \<open>e\<close>:
    \<open>e\<close>, or the error of the \<open>catch\<close> block's own statement.
  \<^item> \<open>left_status sf sid e rows\<close> are the slide rows the \<open>catch\<close> block leaves: the slide
    marked \<open>error\<close> with \<open>e\<close>, unless its statement has thrown.
\<close>

definition first_failure :: "store_faults \<Rightarrow> app_error option \<Rightarrow> bool \<Rightarrow> app_error option" where
  "first_failure sf produced present =
     (case produced of
        Some e \<Rightarrow> Some e
      | None \<Rightarrow>
          (case insert_fault sf of
             Some e \<Rightarrow> Some e
           | None \<Rightarrow> if present then ready_fault sf else Some ForeignKey))"

definition row_recorded :: "store_faults \<Rightarrow> app_error option \<Rightarrow> bool \<Rightarrow> bool" where
  "row_recorded sf produced present \<longleftrightarrow> produced = None \<and> insert_fault sf = None \<and> present"


definition left_status :: "store_faults \<Rightarrow> string \<Rightarrow> app_error \<Rightarrow> slide_row list \<Rightarrow> slide_row list" where
  "left_status sf sid e rows =
     (case error_fault sf of
        None \<Rightarrow> map (\<lambda>r. if slide_id r = sid
                         then r\<lparr>status := Error, error_message := Some e\<rparr> else r) rows
      | Some e' \<Rightarrow> rows)"



section \<open>Operations on slides that overlap in time\<close>

text \<open>
  The three paths that write an image version each read the next version number,
  await something outside (the image service, the file system) and then insert their row.
  Between the two halves of one operation, the halves of others run. An event is one
  half: the beginning of a \<open>regenerateSlideImage\<close>, of a \<open>restoreSlideImageVersion\<close> or of
  a unit of the Images stage, or the settling of the \<open>k\<close>-th operation in flight with what
  the outside answered and with the faults of the store's own statements.
\<close>

datatype op_event =
    Begin_regenerate string string "string option"
  | Begin_restore string string int
  | Begin_images_unit theme stage_slide
  | Settle_image nat image_response store_faults
  | Settle_restore nat "app_error option" store_faults

record system =
  sys_world :: world
  sys_inflight :: "inflight list"

definition inflight_slide :: "inflight \<Rightarrow> string" where
  "inflight_slide f =
     (case f of Regenerating sid resolved promptText \<Rightarrow> sid
      | Restoring sid resolved \<Rightarrow> sid
      | Images_unit s ver promptText \<Rightarrow> ss_id s)"

definition inflight_version :: "inflight \<Rightarrow> int" where
  "inflight_version f =
     (case f of Regenerating sid resolved promptText \<Rightarrow> rg_nextVersion resolved
      | Restoring sid resolved \<Rightarrow> rs_nextVersion resolved
      | Images_unit s ver promptText \<Rightarrow> ver)"

definition began :: "(app_error + inflight) \<times> world \<Rightarrow> system \<Rightarrow> system" where
  "began r sy =
     (case r of
        (Inl e, w1) \<Rightarrow> sy\<lparr>sys_world := w1\<rparr>
      | (Inr f, w1) \<Rightarrow> sy\<lparr>sys_world := w1, sys_inflight := sys_inflight sy @ [f]\<rparr>)"

definition drop_nth :: "nat \<Rightarrow> 'a list \<Rightarrow> 'a list" where
  "drop_nth k xs = take k xs @ drop (Suc k) xs"

text \<open>One event; \<open>None\<close> when no operation in flight can settle that way.\<close>

fun op_step :: "env \<Rightarrow> string \<Rightarrow> string \<Rightarrow> op_event \<Rightarrow> system \<Rightarrow> system option" where
  "op_step ev cwd rootPath (Begin_regenerate projectId slideId promptInput) sy =
     Some (began (regenerate_begin ev projectId slideId promptInput (sys_world sy)) sy)"
| "op_step ev cwd rootPath (Begin_restore projectId slideId ver) sy =
     Some (began (restore_begin projectId slideId ver (sys_world sy)) sy)"
| "op_step ev cwd rootPath (Begin_images_unit th s) sy =
     Some (began (images_unit_begin ev th s (sys_world sy)) sy)"
| "op_step ev cwd rootPath (Settle_image k resp sf) sy =
     (if k < length (sys_inflight sy) then
        (case sys_inflight sy ! k of
           Regenerating sid resolved promptText \<Rightarrow>
             Some \<lparr>sys_world =
                     snd (regenerate_finish sf cwd rootPath sid resolved promptText resp
                            (sys_world sy)),
                   sys_inflight = drop_nth k (sys_inflight sy)\<rparr>
         | Images_unit s ver promptText \<Rightarrow>
             Some \<lparr>sys_world =
                     snd (images_unit_finish_sf sf cwd rootPath s ver promptText resp
                            (sys_world sy)),
                   sys_inflight = drop_nth k (sys_inflight sy)\<rparr>
         | Restoring sid resolved \<Rightarrow> None)
      else None)"
| "op_step ev cwd rootPath (Settle_restore k fault sf) sy =
     (if k < length (sys_inflight sy) then
        (case sys_inflight sy ! k of
           Restoring sid resolved \<Rightarrow>
             Some \<lparr>sys_world =
                     snd (restore_finish sf cwd rootPath sid resolved fault (sys_world sy)),
                   sys_inflight = drop_nth k (sys_inflight sy)\<rparr>
         | _ \<Rightarrow> None)
      else None)"

fun op_run :: "env \<Rightarrow> string \<Rightarrow> string \<Rightarrow> op_event list \<Rightarrow> system \<Rightarrow> system option" where
  "op_run ev cwd rootPath [] sy = Some sy"
| "op_run ev cwd rootPath (e # es) sy =
     (case op_step ev cwd rootPath e sy of None \<Rightarrow> None | Some sy' \<Rightarrow> op_run ev cwd rootPath es sy')"

text \<open>
  The code has no lock on a slide: it relies on its callers not to start an operation on
  a slide while another one on that slide is in flight. \<open>one_at_a_time\<close> says that a
  schedule keeps to this, from the operations \<open>busy\<close> in flight on.
\<close>

fun begins_on :: "op_event \<Rightarrow> string option" where
  "begins_on (Begin_regenerate projectId slideId promptInput) = Some slideId"
| "begins_on (Begin_restore projectId slideId ver) = Some slideId"
| "begins_on (Begin_images_unit th s) = Some (ss_id s)"
| "begins_on _ = None"

fun one_at_a_time :: "env \<Rightarrow> string \<Rightarrow> string \<Rightarrow> op_event list \<Rightarrow> system \<Rightarrow> bool" where
  "one_at_a_time ev cwd rootPath [] sy = True"
| "one_at_a_time ev cwd rootPath (e # es) sy =
     ((case begins_on e of
         None \<Rightarrow> True
       | Some sid \<Rightarrow> sid \<notin> set (map inflight_slide (sys_inflight sy))) \<and>
      (case op_step ev cwd rootPath e sy of
         None \<Rightarrow> True
       | Some sy' \<Rightarrow> one_at_a_time ev cwd rootPath es sy'))"

text \<open>
  The versions of every slide that has any are \<open>1, 2, ..., n\<close> in the order of their
  insertion. What the operations in flight hold: no two of them are on one slide, and
  each holds the next version of its slide, \<open>MAX(version) + 1\<close> on the store as it is now.
\<close>

definition numbered :: "world \<Rightarrow> bool" where
  "numbered w \<longleftrightarrow>
     (\<forall>sid\<in>set (map iv_slide_id (db_versions w)).
        map version (versions_of w sid) = [1..int (length (versions_of w sid))])"

definition holds_next :: "system \<Rightarrow> bool" where
  "holds_next sy \<longleftrightarrow>
     distinct (map inflight_slide (sys_inflight sy)) \<and>
     (\<forall>f\<in>set (sys_inflight sy).
        inflight_version f = next_image_version (sys_world sy) (inflight_slide f))"

section \<open>A small project\<close>






definition demo_slide1 :: slide_row where
  "demo_slide1 = \<lparr>slide_id = ''s1'', project_id = ''p'', section_index = 0, slide_index = 0,
                   title = ''Cover'', summary = ''the cover'', content_json = Some ''c1'',
                   status = Ready, error_message = None\<rparr>"

definition demo_slide2 :: slide_row where
  "demo_slide2 = \<lparr>slide_id = ''s2'', project_id = ''p'', section_index = 0, slide_index = 1,
                   title = ''Agenda'', summary = ''the agenda'', content_json = Some ''c2'',
                   status = Text_ready, error_message = None\<rparr>"

definition demo_slide3 :: slide_row where
  "demo_slide3 = \<lparr>slide_id = ''s3'', project_id = ''p'', section_index = 1, slide_index = 0,
                   title = ''Thanks'', summary = ''the end'', content_json = None,
                   status = Pending, error_message = None\<rparr>"

definition demo_version1 :: image_version_row where
  "demo_version1 = \<lparr>iv_slide_id = ''s1'', version = 1, prompt_text = ''first prompt'',
                     image_path = ''images/slide-0001/v1.png'',
                     provider = Some ''vectorengine'', request_json = Some ''rq1'',
                     response_json = Some ''rs1''\<rparr>"

definition demo_version2 :: image_version_row where
  "demo_version2 = \<lparr>iv_slide_id = ''s1'', version = 2, prompt_text = ''second prompt'',
                     image_path = ''images/slide-0001/v2.jpg'',
                     provider = Some ''vectorengine'', request_json = Some ''rq2'',
                     response_json = Some ''rs2''\<rparr>"

definition demo_world :: world where
  "demo_world =
     \<lparr>db_slides = [demo_slide1, demo_slide2, demo_slide3],
      db_versions = [demo_version1, demo_version2],
      db_outlines = [],
      db_themes = [(''p'', 1, ''th'')],
      files = [''/home/u/deck/images/slide-0001/v1.png'' \<mapsto> ''PNG-1'',
               ''/home/u/deck/images/slide-0001/v2.jpg'' \<mapsto> ''JPG-2'']\<rparr>"




section \<open>Properties of \<open>withRetries\<close>\<close>

declare withRetries_loop.simps [simp del]

lemma calls_of_append: "calls_of (xs @ ys) = calls_of xs @ calls_of ys"
  by (induction xs rule: calls_of.induct) auto

lemma warnings_of_append: "warnings_of (xs @ ys) = warnings_of xs @ warnings_of ys"
  by (induction xs rule: warnings_of.induct) auto

lemma sleeps_of_append: "sleeps_of (xs @ ys) = sleeps_of xs @ sleeps_of ys"
  by (induction xs rule: sleeps_of.induct) auto

lemma loop_success:
  "attempt \<le> k \<Longrightarrow> k \<le> attempts \<Longrightarrow> fn k = Inr v \<Longrightarrow>
   (\<And>j. attempt \<le> j \<Longrightarrow> j < k \<Longrightarrow> isl (fn j)) \<Longrightarrow>
   withRetries_loop attempts fn opts attempt lastError evs =
     (Inr v, evs @ concat (map (retry_round fn opts attempts) [attempt..k - 1]) @ [Call k])"
proof (induction attempts fn opts attempt lastError evs rule: withRetries_loop.induct)
  case (1 attempts fn opts attempt lastError evs)
  show ?case
  proof (cases "attempt = k")
    case True
    with "1.prems" show ?thesis by (simp add: withRetries_loop.simps[of attempts fn opts k])
  next
    case False
    with "1.prems" have lt: "attempt < k" by simp
    then obtain err where err: "fn attempt = Inl err"
      using "1.prems"(4)[of attempt] by (cases "fn attempt") auto
    have up: "[attempt..k - 1] = attempt # [attempt + 1..k - 1]"
      using lt by (simp add: upto_rec1)
    have "withRetries_loop attempts fn opts (attempt + 1) (Some err)
            (evs @ [Call attempt, Warn (label_of opts) attempt attempts err,
                    Sleep (baseDelayMs_of opts * 2 ^ nat (attempt - 1))]) =
          (Inr v, (evs @ [Call attempt, Warn (label_of opts) attempt attempts err,
                    Sleep (baseDelayMs_of opts * 2 ^ nat (attempt - 1))]) @
             concat (map (retry_round fn opts attempts) [attempt + 1..k - 1]) @ [Call k])"
      using "1.IH"[OF _ err] lt "1.prems" by simp
    moreover have "retry_round fn opts attempts attempt =
        [Call attempt, Warn (label_of opts) attempt attempts err,
         Sleep (baseDelayMs_of opts * 2 ^ nat (attempt - 1))]"
      using err by (simp add: retry_round_def)
    ultimately show ?thesis
      using lt "1.prems"(2) err up
      by (subst withRetries_loop.simps) simp
  qed
qed

lemma loop_exhaust:
  "attempt \<le> attempts \<Longrightarrow>
   (\<And>j. attempt \<le> j \<Longrightarrow> j \<le> attempts \<Longrightarrow> isl (fn j)) \<Longrightarrow>
   withRetries_loop attempts fn opts attempt lastError evs =
     (Inl (rethrown (Some (projl (fn attempts)))),
      evs @ concat (map (retry_round fn opts attempts) [attempt..attempts - 1]) @ [Call attempts])"
proof (induction attempts fn opts attempt lastError evs rule: withRetries_loop.induct)
  case (1 attempts fn opts attempt lastError evs)
  obtain err where err: "fn attempt = Inl err"
    using "1.prems"(2)[of attempt] "1.prems"(1) by (cases "fn attempt") auto
  show ?case
  proof (cases "attempt = attempts")
    case True
    with err show ?thesis by (simp add: withRetries_loop.simps[of attempts fn opts attempts])
  next
    case False
    with "1.prems" have lt: "attempt < attempts" by simp
    have up: "[attempt..attempts - 1] = attempt # [attempt + 1..attempts - 1]"
      using lt by (simp add: upto_rec1)
    have "withRetries_loop attempts fn opts (attempt + 1) (Some err)
            (evs @ [Call attempt, Warn (label_of opts) attempt attempts err,
                    Sleep (baseDelayMs_of opts * 2 ^ nat (attempt - 1))]) =
          (Inl (rethrown (Some (projl (fn attempts)))),
            (evs @ [Call attempt, Warn (label_of opts) attempt attempts err,
                    Sleep (baseDelayMs_of opts * 2 ^ nat (attempt - 1))]) @
             concat (map (retry_round fn opts attempts) [attempt + 1..attempts - 1]) @ [Call attempts])"
      using "1.IH"[OF _ err] lt "1.prems" by simp
    moreover have "retry_round fn opts attempts attempt =
        [Call attempt, Warn (label_of opts) attempt attempts err,
         Sleep (baseDelayMs_of opts * 2 ^ nat (attempt - 1))]"
      using err by (simp add: retry_round_def)
    ultimately show ?thesis
      using lt err up
      by (subst withRetries_loop.simps) simp
  qed
qed

lemma calls_of_rounds:
  "calls_of (concat (map (retry_round fn opts attempts) js)) = js"
  by (induction js) (simp_all add: retry_round_def)

lemma sleeps_of_rounds:
  "sleeps_of (concat (map (retry_round fn opts attempts) js)) =
     map (\<lambda>j. baseDelayMs_of opts * 2 ^ nat (j - 1)) js"
  by (induction js) (simp_all add: retry_round_def)

lemma warnings_of_rounds:
  "warnings_of (concat (map (retry_round fn opts attempts) js)) =
     map (\<lambda>j. (label_of opts, j, attempts, projl (fn j))) js"
  by (induction js) (simp_all add: retry_round_def)

lemma upto_1_2: "[1..2::int] = [1, 2]"
  by code_simp

lemma upto_1_3: "[1..3::int] = [1, 2, 3]"
  by code_simp

lemma floor_5_2: "\<lfloor>5 / 2 :: rat\<rfloor> = 2"
  by (simp add: floor_eq_iff)

lemma floor_7_2: "\<lfloor>7 / 2 :: rat\<rfloor> = 3"
  by (simp add: floor_eq_iff)

text \<open>
  Claim C5. \<open>withRetries(attempts, f)\<close> returns the result of the first call of \<open>f\<close> that
  succeeds: when call \<open>k \<le> attempts\<close> is the first to return, the calls made are exactly
  those with the attempt numbers \<open>1..k\<close>, and after each failed attempt \<open>j < k\<close> it
  sleeps \<open>baseDelayMs * 2^(j-1)\<close> before the next one. When every one of the \<open>attempts\<close>
  calls throws (\<open>attempts \<ge> 1\<close>), \<open>f\<close> is called exactly \<open>attempts\<close> times, with the
  same sleeps between the calls and none after the last, and the last thrown value is
  thrown again: as it is when it is an \<open>Error\<close>, wrapped by \<open>new Error(String(v))\<close>
  otherwise.
\<close>

theorem withRetries_contract:
  fixes fn :: "int \<Rightarrow> js_thrown + 'a"
  shows
   "(1 \<le> k \<and> k \<le> attempts \<and> fn k = Inr v \<and> (\<forall>j. 1 \<le> j \<and> j < k \<longrightarrow> isl (fn j)) \<longrightarrow>
       fst (withRetries attempts fn opts) = Inr v \<and>
       calls_of (snd (withRetries attempts fn opts)) = [1..k] \<and>
       sleeps_of (snd (withRetries attempts fn opts)) =
         map (\<lambda>j. baseDelayMs_of opts * 2 ^ nat (j - 1)) [1..k - 1]) \<and>
    (1 \<le> attempts \<and> (\<forall>j. 1 \<le> j \<and> j \<le> attempts \<longrightarrow> isl (fn j)) \<longrightarrow>
       fst (withRetries attempts fn opts) = Inl (rethrown (Some (projl (fn attempts)))) \<and>
       (\<forall>m. fn attempts = Inl (JsError m) \<longrightarrow>
            fst (withRetries attempts fn opts) = Inl (JsError m)) \<and>
       calls_of (snd (withRetries attempts fn opts)) = [1..attempts] \<and>
       sleeps_of (snd (withRetries attempts fn opts)) =
         map (\<lambda>j. baseDelayMs_of opts * 2 ^ nat (j - 1)) [1..attempts - 1])"
proof (intro conjI impI)
  assume a: "1 \<le> k \<and> k \<le> attempts \<and> fn k = Inr v \<and> (\<forall>j. 1 \<le> j \<and> j < k \<longrightarrow> isl (fn j))"
  then have run: "withRetries attempts fn opts =
      (Inr v, [] @ concat (map (retry_round fn opts attempts) [1..k - 1]) @ [Call k])"
    unfolding withRetries_def by (intro loop_success) auto
  show "fst (withRetries attempts fn opts) = Inr v"
    by (simp add: run)
  have "[1..k] = [1..k - 1] @ [k]"
    using a upto_rec2[of 1 k] by simp
  then show "calls_of (snd (withRetries attempts fn opts)) = [1..k]"
    by (simp add: run calls_of_append calls_of_rounds)
  show "sleeps_of (snd (withRetries attempts fn opts)) =
         map (\<lambda>j. baseDelayMs_of opts * 2 ^ nat (j - 1)) [1..k - 1]"
    by (simp add: run sleeps_of_append sleeps_of_rounds)
next
  assume a: "1 \<le> attempts \<and> (\<forall>j. 1 \<le> j \<and> j \<le> attempts \<longrightarrow> isl (fn j))"
  then have run: "withRetries attempts fn opts =
      (Inl (rethrown (Some (projl (fn attempts)))),
       [] @ concat (map (retry_round fn opts attempts) [1..attempts - 1]) @ [Call attempts])"
    unfolding withRetries_def by (intro loop_exhaust) auto
  show "fst (withRetries attempts fn opts) = Inl (rethrown (Some (projl (fn attempts))))"
    by (simp add: run)
  then show "\<forall>m. fn attempts = Inl (JsError m) \<longrightarrow>
            fst (withRetries attempts fn opts) = Inl (JsError m)"
    by simp
  have "[1..attempts] = [1..attempts - 1] @ [attempts]"
    using a upto_rec2[of 1 attempts] by simp
  then show "calls_of (snd (withRetries attempts fn opts)) = [1..attempts]"
    by (simp add: run calls_of_append calls_of_rounds)
  show "sleeps_of (snd (withRetries attempts fn opts)) =
         map (\<lambda>j. baseDelayMs_of opts * 2 ^ nat (j - 1)) [1..attempts - 1]"
    by (simp add: run sleeps_of_append sleeps_of_rounds)
qed

theorem withRetries_contract_witness:
  "fst (withRetries 3 (fails_twice_then (7::nat)) None) = Inr 7 \<and>
   calls_of (snd (withRetries 3 (fails_twice_then (7::nat)) None)) = [1, 2, 3] \<and>
   sleeps_of (snd (withRetries 3 (fails_twice_then (7::nat)) None)) = [300, 600] \<and>
   fst (withRetries 3 (always_fails :: int \<Rightarrow> js_thrown + nat) None) = Inl (JsError ''boom'') \<and>
   calls_of (snd (withRetries 3 (always_fails :: int \<Rightarrow> js_thrown + nat) None)) = [1, 2, 3] \<and>
   sleeps_of (snd (withRetries 3 (always_fails :: int \<Rightarrow> js_thrown + nat) None)) = [300, 600]"
  using withRetries_contract [of 3 3 "fails_twice_then (7::nat)" 7 None]
        withRetries_contract [of 3 3 "always_fails :: int \<Rightarrow> js_thrown + nat" 7 None]
  by (simp add: fails_twice_then_def always_fails_def baseDelayMs_of_def upto_1_2 upto_1_3)

text \<open>
  Claim C6, as stated, fails: \<open>if (attempt >= attempts) break\<close> stands before
  \<open>console.warn\<close>, so the last failed attempt of an exhausted run logs nothing. With
  \<open>attempts = 3\<close> an operation that always fails is called three times and logs two
  warnings, not three.
\<close>

theorem withRetries_warnings_counterexample:
  "length (calls_of (snd (withRetries 3 (always_fails :: int \<Rightarrow> js_thrown + nat) None))) = 3 \<and>
   length (warnings_of (snd (withRetries 3 (always_fails :: int \<Rightarrow> js_thrown + nat) None))) = 2"
proof -
  have "withRetries 3 (always_fails :: int \<Rightarrow> js_thrown + nat) None =
      (Inl (rethrown (Some (projl ((always_fails :: int \<Rightarrow> js_thrown + nat) 3)))),
       [] @ concat (map (retry_round (always_fails :: int \<Rightarrow> js_thrown + nat) None 3) [1..3 - 1]) @ [Call 3])"
    unfolding withRetries_def
    using loop_exhaust [of 1 3 "always_fails :: int \<Rightarrow> js_thrown + nat" None None "[]"]
    by (simp add: always_fails_def)
  then show ?thesis
    by (simp add: retry_round_def upto_1_2)
qed

text \<open>
  Claim C6, amended. \<open>withRetries\<close> logs exactly one warning, with the caller's label
  (\<open>withRetries\<close> when none is given), the attempt number, \<open>attempts\<close> and the caught
  value, for each failed attempt that is followed by another attempt, in order: for the
  attempts \<open>1..k-1\<close> when call \<open>k\<close> is the first to succeed, and for the attempts
  \<open>1..attempts-1\<close> when all \<open>attempts\<close> calls fail. The failure of the last allowed
  attempt is thrown, not logged.
\<close>

theorem withRetries_warnings:
  fixes fn :: "int \<Rightarrow> js_thrown + 'a"
  shows
   "(1 \<le> k \<and> k \<le> attempts \<and> fn k = Inr v \<and> (\<forall>j. 1 \<le> j \<and> j < k \<longrightarrow> isl (fn j)) \<longrightarrow>
       warnings_of (snd (withRetries attempts fn opts)) =
         map (\<lambda>j. (label_of opts, j, attempts, projl (fn j))) [1..k - 1]) \<and>
    (1 \<le> attempts \<and> (\<forall>j. 1 \<le> j \<and> j \<le> attempts \<longrightarrow> isl (fn j)) \<longrightarrow>
       warnings_of (snd (withRetries attempts fn opts)) =
         map (\<lambda>j. (label_of opts, j, attempts, projl (fn j))) [1..attempts - 1])"
proof (intro conjI impI)
  assume a: "1 \<le> k \<and> k \<le> attempts \<and> fn k = Inr v \<and> (\<forall>j. 1 \<le> j \<and> j < k \<longrightarrow> isl (fn j))"
  then have run: "withRetries attempts fn opts =
      (Inr v, [] @ concat (map (retry_round fn opts attempts) [1..k - 1]) @ [Call k])"
    unfolding withRetries_def by (intro loop_success) auto
  show "warnings_of (snd (withRetries attempts fn opts)) =
         map (\<lambda>j. (label_of opts, j, attempts, projl (fn j))) [1..k - 1]"
    by (simp add: run warnings_of_append warnings_of_rounds)
next
  assume a: "1 \<le> attempts \<and> (\<forall>j. 1 \<le> j \<and> j \<le> attempts \<longrightarrow> isl (fn j))"
  then have run: "withRetries attempts fn opts =
      (Inl (rethrown (Some (projl (fn attempts)))),
       [] @ concat (map (retry_round fn opts attempts) [1..attempts - 1]) @ [Call attempts])"
    unfolding withRetries_def by (intro loop_exhaust) auto
  show "warnings_of (snd (withRetries attempts fn opts)) =
         map (\<lambda>j. (label_of opts, j, attempts, projl (fn j))) [1..attempts - 1]"
    by (simp add: run warnings_of_append warnings_of_rounds)
qed

theorem withRetries_warnings_witness:
  "warnings_of (snd (withRetries 3 (fails_twice_then (7::nat))
       (Some \<lparr>label = Some ''OutlineAgent'', baseDelayMs = None\<rparr>))) =
     [(''OutlineAgent'', 1, 3, JsError ''boom''), (''OutlineAgent'', 2, 3, JsError ''boom'')] \<and>
   warnings_of (snd (withRetries 3 (always_fails :: int \<Rightarrow> js_thrown + nat) None)) =
     [(''withRetries'', 1, 3, JsError ''boom''), (''withRetries'', 2, 3, JsError ''boom'')]"
  using withRetries_warnings [of 3 3 "fails_twice_then (7::nat)" 7
          "Some \<lparr>label = Some ''OutlineAgent'', baseDelayMs = None\<rparr>"]
        withRetries_warnings [of 3 3 "always_fails :: int \<Rightarrow> js_thrown + nat" 7 None]
  by (simp add: fails_twice_then_def always_fails_def label_of_def upto_1_2)

section \<open>Properties of \<open>createConcurrencyLimiter\<close>\<close>

text \<open>
  Claim C10. \<open>createConcurrencyLimiter\<close> throws at construction for every argument that
  is not a positive integer, and only for those: fractional values such as 2.5, \<open>NaN\<close>,
  both infinities, zero and negative integers are all refused; a positive integer \<open>k\<close>
  gives a limiter of that capacity with nothing active and nothing queued.
\<close>

theorem createConcurrencyLimiter_rejects:
  "(createConcurrencyLimiter n = Inl (NotPositiveInteger n)
      \<longleftrightarrow> \<not> (\<exists>k::int. 0 < k \<and> n = JsFinite (of_int k))) \<and>
   (\<forall>k::int. 0 < k \<longrightarrow>
      createConcurrencyLimiter (JsFinite (of_int k)) =
        Inr \<lparr> maxConcurrency = k, activeCount = 0, queue = [], resumable = [],
              executing = [], admitted = [], settled = [] \<rparr>) \<and>
   createConcurrencyLimiter (JsFinite (5 / 2)) = Inl (NotPositiveInteger (JsFinite (5 / 2))) \<and>
   createConcurrencyLimiter JsNaN = Inl (NotPositiveInteger JsNaN) \<and>
   createConcurrencyLimiter JsPosInf = Inl (NotPositiveInteger JsPosInf) \<and>
   createConcurrencyLimiter JsNegInf = Inl (NotPositiveInteger JsNegInf) \<and>
   createConcurrencyLimiter (JsFinite 0) = Inl (NotPositiveInteger (JsFinite 0)) \<and>
   createConcurrencyLimiter (JsFinite (- 3)) = Inl (NotPositiveInteger (JsFinite (- 3)))"
proof (intro conjI)
  show "createConcurrencyLimiter n = Inl (NotPositiveInteger n)
      \<longleftrightarrow> \<not> (\<exists>k::int. 0 < k \<and> n = JsFinite (of_int k))"
  proof (cases n)
    case (JsFinite q)
    show ?thesis
    proof (cases "of_int \<lfloor>q\<rfloor> = q \<and> 0 < q")
      case True
      then have eq: "of_int \<lfloor>q\<rfloor> = q" and pos: "0 < q"
        by blast+
      have "0 < (of_int \<lfloor>q\<rfloor> :: rat)"
        using eq pos by (simp only:)
      then have "0 < \<lfloor>q\<rfloor>"
        by (simp only: of_int_0_less_iff)
      moreover have "n = JsFinite (of_int \<lfloor>q\<rfloor>)"
        using JsFinite eq by (simp only:)
      ultimately have "0 < \<lfloor>q\<rfloor> \<and> n = JsFinite (of_int \<lfloor>q\<rfloor>)"
        by blast
      then have "\<exists>k::int. 0 < k \<and> n = JsFinite (of_int k)" by blast
      then show ?thesis using True JsFinite by (simp add: createConcurrencyLimiter_def)
    next
      case False
      then have "\<not> (\<exists>k::int. 0 < k \<and> n = JsFinite (of_int k))"
        using JsFinite by auto
      then show ?thesis using False JsFinite by (auto simp add: createConcurrencyLimiter_def)
    qed
  qed (simp_all add: createConcurrencyLimiter_def)
qed (simp_all add: createConcurrencyLimiter_def floor_5_2)

theorem createConcurrencyLimiter_rejects_witness:
  "createConcurrencyLimiter (JsFinite 5) \<noteq> Inl (NotPositiveInteger (JsFinite 5)) \<and>
   createConcurrencyLimiter (JsFinite 5) =
        Inr \<lparr> maxConcurrency = 5, activeCount = 0, queue = [], resumable = [],
              executing = [], admitted = [], settled = [] \<rparr> \<and>
   createConcurrencyLimiter (JsFinite (7 / 2)) = Inl (NotPositiveInteger (JsFinite (7 / 2)))"
  using createConcurrencyLimiter_rejects [of "JsFinite 5"]
        createConcurrencyLimiter_rejects [of "JsFinite (7 / 2)"]
  by (simp add: createConcurrencyLimiter_def floor_7_2)

section \<open>Properties of the limiter\<close>

lemma limiter_run_append:
  "limiter_run (xs @ ys) s =
     (case limiter_run xs s of None \<Rightarrow> None | Some s' \<Rightarrow> limiter_run ys s')"
  by (induction xs arbitrary: s) (auto split: option.splits)

lemma limiter_run_snoc:
  "limiter_run (xs @ [e]) s =
     (case limiter_run xs s of None \<Rightarrow> None | Some s' \<Rightarrow> limiter_step e s')"
  by (simp add: limiter_run_append split: option.splits)

lemma limiter_inv_new: "1 \<le> N \<Longrightarrow> limiter_inv N [] (new_limiter N)"
  by (simp add: limiter_inv_def new_limiter_def)

lemma limiter_submit_inv:
  assumes inv: "limiter_inv N ops s" and nores: "resumable s = []"
    and step: "limiter_step (Submit t) s = Some s'"
  shows "limiter_inv N (ops @ [t]) s' \<and> resumable s' = [] \<and> settled s' = settled s"
proof -
  from step have fresh: "t \<notin> set (admitted s @ resumable s @ queue s)"
    by (auto split: if_splits)
  then have fresh': "t \<notin> set ops" using inv by (auto simp: limiter_inv_def)
  show ?thesis
  proof (cases "activeCount s \<ge> maxConcurrency s")
    case True
    then have s': "s' = s\<lparr>queue := queue s @ [t]\<rparr>"
      using step fresh by simp
    have "int (length (executing s) + length (resumable s)) = N"
      using True inv nores by (auto simp: limiter_inv_def)
    then show ?thesis
      using inv nores fresh' by (auto simp: s' limiter_inv_def)
  next
    case False
    then have s': "s' = limiter_admit t s"
      using step fresh by simp
    have q: "queue s = []"
      using False inv nores by (auto simp: limiter_inv_def)
    have "t \<notin> set (admitted s)" using fresh by simp
    then have "t \<notin> set (executing s) \<and> t \<notin> set (map fst (settled s))"
      using inv unfolding limiter_inv_def by blast
    then show ?thesis
      using inv nores fresh' False q
      by (auto simp: s' limiter_inv_def limiter_admit_def)
  qed
qed

lemma length_removeAll_distinct:
  "distinct xs \<Longrightarrow> t \<in> set xs \<Longrightarrow> Suc (length (removeAll t xs)) = length xs"
  by (induction xs) auto

lemma limiter_drain_inv:
  assumes inv: "limiter_inv N ops s" and ns: "\<not> is_Submit e"
    and step: "limiter_step e s = Some s'"
  shows "limiter_inv N ops s' \<and> Suc (limiter_potential s') = limiter_potential s"
proof (cases e)
  case (Submit t)
  with ns show ?thesis by simp
next
  case (Settle t out)
  with step have ex: "t \<in> set (executing s)"
    by (auto split: if_splits)
  have dex: "distinct (executing s)"
    using inv by (simp add: limiter_inv_def)
  have len: "Suc (length (removeAll t (executing s))) = length (executing s)"
    using dex ex by (rule length_removeAll_distinct)
  have tns: "t \<notin> set (map fst (settled s))"
    using inv ex unfolding limiter_inv_def by auto
  have sets: "set (removeAll t (executing s)) \<union> insert t (set (map fst (settled s))) = set (admitted s)"
    using inv ex unfolding limiter_inv_def by auto
  have s': "s' = limiter_next
             (s\<lparr>executing := removeAll t (executing s), settled := settled s @ [(t, out)]\<rparr>)"
    using step ex Settle by simp
  show ?thesis
  proof (cases "queue s")
    case Nil
    then show ?thesis
      using inv len tns sets dex
      by (auto simp: s' limiter_inv_def limiter_next_def limiter_potential_def distinct_removeAll)
  next
    case (Cons w ws)
    then have full: "int (length (executing s) + length (resumable s)) = N"
      using inv by (simp add: limiter_inv_def)
    then show ?thesis
      using inv len tns sets dex Cons
      by (auto simp: s' limiter_inv_def limiter_next_def limiter_potential_def distinct_removeAll)
  qed
next
  case Resume
  with step obtain w ws where r: "resumable s = w # ws"
    and s': "s' = limiter_admit w (s\<lparr>resumable := ws\<rparr>)"
    by (auto split: list.splits)
  have "w \<notin> set (admitted s)"
    using inv r unfolding limiter_inv_def by (metis append_Cons distinct_append disjoint_iff list.set_intros(1) in_set_conv_decomp)
  then have "w \<notin> set (executing s) \<and> w \<notin> set (map fst (settled s))"
    using inv unfolding limiter_inv_def by blast
  then show ?thesis
    using inv r
    by (auto simp: s' limiter_inv_def limiter_admit_def limiter_potential_def)
qed

lemma limiter_submit_phase:
  "1 \<le> N \<Longrightarrow> limiter_run (map Submit ops) (new_limiter N) = Some s \<Longrightarrow>
   limiter_inv N ops s \<and> resumable s = [] \<and> settled s = []"
proof (induction ops arbitrary: s rule: rev_induct)
  case Nil
  then have "s = new_limiter N" by simp
  then show ?case using Nil by (simp add: limiter_inv_def new_limiter_def)
next
  case (snoc t ops)
  from snoc.prems(2) obtain s0 where
    s0: "limiter_run (map Submit ops) (new_limiter N) = Some s0"
    and st: "limiter_step (Submit t) s0 = Some s"
    by (auto simp: limiter_run_snoc split: option.splits)
  from snoc.IH[OF snoc.prems(1) s0]
  have i0: "limiter_inv N ops s0" and r0: "resumable s0 = []" and e0: "settled s0 = []"
    by simp_all
  from limiter_submit_inv[OF i0 r0 st] e0 show ?case by simp
qed

lemma limiter_drain_phase:
  "limiter_inv N ops s0 \<Longrightarrow> \<forall>e\<in>set sched. \<not> is_Submit e \<Longrightarrow>
   limiter_run sched s0 = Some s \<Longrightarrow>
   limiter_inv N ops s \<and> length sched + limiter_potential s = limiter_potential s0"
proof (induction sched arbitrary: s0)
  case Nil
  then show ?case by simp
next
  case (Cons e sched)
  from Cons.prems(3) obtain s1 where
    st: "limiter_step e s0 = Some s1" and rest: "limiter_run sched s1 = Some s"
    by (auto split: option.splits)
  have ns: "\<not> is_Submit e" using Cons.prems(2) by simp
  from limiter_drain_inv[OF Cons.prems(1) ns st]
  have inv1: "limiter_inv N ops s1" and pot: "Suc (limiter_potential s1) = limiter_potential s0"
    by simp_all
  from Cons.IH[OF inv1 _ rest] Cons.prems(2)
  have "limiter_inv N ops s \<and> length sched + limiter_potential s = limiter_potential s1"
    by simp
  with pot show ?case by simp
qed

lemma limiter_inv_executing_le:
  assumes "limiter_inv N ops s"
  shows "length (executing s) \<le> length (admitted s)"
proof -
  have d: "distinct (executing s)" and sub: "set (executing s) \<subseteq> set (admitted s)"
    using assms by (auto simp: limiter_inv_def)
  have "length (executing s) = card (set (executing s))"
    using d by (simp add: distinct_card)
  also have "\<dots> \<le> card (set (admitted s))"
    using sub by (simp add: card_mono)
  also have "\<dots> \<le> length (admitted s)"
    by (rule card_length)
  finally show ?thesis .
qed

lemma limiter_potential_after_submits:
  assumes "limiter_inv N ops s" and "resumable s = []"
  shows "limiter_potential s \<le> 2 * length ops"
proof -
  have "length ops = length (admitted s) + length (queue s)"
    using assms by (auto simp: limiter_inv_def dest: arg_cong[where f = length])
  with limiter_inv_executing_le[OF assms(1)] assms(2) show ?thesis
    by (simp add: limiter_potential_def)
qed

lemma limiter_inv_safe:
  "limiter_inv N ops s \<Longrightarrow> int (length (executing s)) \<le> N \<and> prefix (admitted s) ops"
  by (auto simp: limiter_inv_def prefix_def)

lemma limiter_inv_stuck:
  assumes inv: "limiter_inv N ops s" and N: "1 \<le> N"
    and stuck: "\<forall>e. \<not> is_Submit e \<longrightarrow> limiter_step e s = None"
  shows "set (map fst (settled s)) = set ops \<and> distinct (map fst (settled s))"
proof -
  have r: "resumable s = []"
    using stuck[rule_format, of Resume] by (simp split: list.splits)
  have e: "executing s = []"
  proof (cases "executing s")
    case (Cons t ts)
    then show ?thesis
      using stuck[rule_format, of "Settle t Fulfilled"] by simp
  qed simp
  have q: "queue s = []"
    using inv N r e by (auto simp: limiter_inv_def)
  show ?thesis
    using inv r e q by (auto simp: limiter_inv_def)
qed

lemma limiter_run_prefix:
  "limiter_run (xs @ ys) s = Some s' \<Longrightarrow> \<exists>s1. limiter_run xs s = Some s1"
  by (simp add: limiter_run_append split: option.splits)

lemma createConcurrencyLimiter_new:
  "1 \<le> N \<Longrightarrow> createConcurrencyLimiter (JsFinite (of_int N)) = Inr (new_limiter N)"
  by (simp add: createConcurrencyLimiter_def new_limiter_def)

text \<open>
  One batch. A limiter of capacity \<open>N \<ge> 1\<close> is given the operations \<open>ops\<close> (any number
  \<open>K\<close> of them, so also \<open>K > N\<close>), all submitted before the first of them settles, and
  then any schedule of settlements (fulfilled or rejected) and of resumptions of resolved
  waiters. Then at every instant of the run at most \<open>N\<close> operations execute, the
  operations are admitted in the order they were submitted, the schedule has at most
  \<open>2 * K\<close> events, and when nothing more can happen every one of the \<open>K\<close> operations has
  settled exactly once. This is as far as the bound goes: see \<open>limiter_exceeds_capacity\<close>.
\<close>

theorem limiter_batch:
  assumes cap: "1 \<le> N"
    and mk: "createConcurrencyLimiter (JsFinite (of_int N)) = Inr L"
    and drain: "\<forall>e\<in>set sched. \<not> is_Submit e"
    and run: "limiter_run (map Submit ops @ sched) L = Some s"
  shows "(\<forall>evs. prefix evs (map Submit ops @ sched) \<longrightarrow>
            (\<exists>s'. limiter_run evs L = Some s' \<and>
                  int (length (executing s')) \<le> N \<and> prefix (admitted s') ops)) \<and>
         length sched \<le> 2 * length ops \<and>
         ((\<forall>e. \<not> is_Submit e \<longrightarrow> limiter_step e s = None) \<longrightarrow>
            set (map fst (settled s)) = set ops \<and> distinct (map fst (settled s)))"
proof -
  have L: "L = new_limiter N"
    using mk createConcurrencyLimiter_new[OF cap] by simp
  from run obtain s0 where s0: "limiter_run (map Submit ops) L = Some s0"
    and rest: "limiter_run sched s0 = Some s"
    by (auto simp: limiter_run_append split: option.splits)
  have inv0: "limiter_inv N ops s0" and r0: "resumable s0 = []"
    using limiter_submit_phase[OF cap s0[unfolded L]] by simp_all
  have fin: "limiter_inv N ops s"
    and pot: "length sched + limiter_potential s = limiter_potential s0"
    using limiter_drain_phase[OF inv0 drain rest] by simp_all
  have bound: "length sched \<le> 2 * length ops"
    using pot limiter_potential_after_submits[OF inv0 r0] by simp
  have every: "\<exists>s'. limiter_run evs L = Some s' \<and>
                  int (length (executing s')) \<le> N \<and> prefix (admitted s') ops"
    if pre: "prefix evs (map Submit ops @ sched)" for evs
  proof -
    from pre consider (sub) "prefix evs (map Submit ops)"
      | (dr) us where "evs = map Submit ops @ us" "prefix us sched"
      by (auto simp: prefix_append)
    then show ?thesis
    proof cases
      case sub
      then obtain ops' where e: "evs = map Submit ops'" and p: "prefix ops' ops"
        by (auto simp: prefix_def map_eq_append_conv)
      from p obtain zs where "ops = ops' @ zs" by (auto simp: prefix_def)
      then have "\<exists>s1. limiter_run (map Submit ops') L = Some s1"
        using s0 limiter_run_prefix[of "map Submit ops'" "map Submit zs" L s0] by simp
      then obtain s1 where s1: "limiter_run (map Submit ops') L = Some s1" ..
      have "limiter_inv N ops' s1"
        using limiter_submit_phase[OF cap s1[unfolded L]] by simp
      then have "int (length (executing s1)) \<le> N \<and> prefix (admitted s1) ops'"
        by (rule limiter_inv_safe)
      with p s1 e show ?thesis
        by (auto intro: prefix_order.trans)
    next
      case dr
      from dr(2) obtain vs where sched: "sched = us @ vs" by (auto simp: prefix_def)
      then have "\<exists>s1. limiter_run us s0 = Some s1"
        using rest limiter_run_prefix[of us vs s0 s] by simp
      then obtain s1 where s1: "limiter_run us s0 = Some s1" ..
      have "\<forall>e\<in>set us. \<not> is_Submit e" using drain sched by simp
      then have "limiter_inv N ops s1"
        using limiter_drain_phase[OF inv0 _ s1] by simp
      then have "int (length (executing s1)) \<le> N \<and> prefix (admitted s1) ops"
        by (rule limiter_inv_safe)
      moreover have "limiter_run evs L = Some s1"
        using dr(1) s0 s1 by (simp add: limiter_run_append)
      ultimately show ?thesis by blast
    qed
  qed
  show ?thesis
    using every bound limiter_inv_stuck[OF fin cap] by blast
qed

lemma limiter_step_None_iff:
  "(\<forall>e. \<not> is_Submit e \<longrightarrow> limiter_step e s = None) \<longleftrightarrow> executing s = [] \<and> resumable s = []"
proof
  assume a: "\<forall>e. \<not> is_Submit e \<longrightarrow> limiter_step e s = None"
  have r: "resumable s = []"
    using a[rule_format, of Resume] by (simp split: list.splits)
  have "executing s = []"
  proof (cases "executing s")
    case (Cons t ts)
    then show ?thesis
      using a[rule_format, of "Settle t Fulfilled"] by simp
  qed simp
  with r show "executing s = [] \<and> resumable s = []" by simp
next
  assume b: "executing s = [] \<and> resumable s = []"
  show "\<forall>e. \<not> is_Submit e \<longrightarrow> limiter_step e s = None"
  proof (intro allI impI)
    fix e assume "\<not> is_Submit e"
    then show "limiter_step e s = None"
      using b by (cases e) simp_all
  qed
qed

theorem limiter_batch_witness:
  "(\<exists>s'. limiter_run (map Submit [0, 1, 2] @ [Settle 0 Rejected, Resume, Settle 1 Fulfilled])
            (new_limiter 2) = Some s' \<and>
         int (length (executing s')) \<le> 2 \<and> prefix (admitted s') [0, 1, 2]) \<and>
   set (map fst (settled
     \<lparr>maxConcurrency = 2, activeCount = 0, queue = [], resumable = [],
      executing = [], admitted = [0, 1, 2],
      settled = [(0, Rejected), (1, Fulfilled), (2, Fulfilled)]\<rparr>)) = {0, 1, 2}"
proof -
  have cap: "(1::int) \<le> 2" by simp
  have mk: "createConcurrencyLimiter (JsFinite (of_int 2)) = Inr (new_limiter 2)"
    by (simp add: createConcurrencyLimiter_def new_limiter_def)
  have drain: "\<forall>e\<in>set [Settle 0 Rejected, Resume, Settle 1 Fulfilled, Settle 2 Fulfilled].
                 \<not> is_Submit e"
    by simp
  have run: "limiter_run (map Submit [0, 1, 2] @
                [Settle 0 Rejected, Resume, Settle 1 Fulfilled, Settle 2 Fulfilled])
               (new_limiter 2) =
             Some \<lparr>maxConcurrency = 2, activeCount = 0, queue = [], resumable = [],
                   executing = [], admitted = [0, 1, 2],
                   settled = [(0, Rejected), (1, Fulfilled), (2, Fulfilled)]\<rparr>"
    by (simp add: new_limiter_def limiter_admit_def limiter_next_def)
  have pre: "prefix (map Submit [0, 1, 2] @ [Settle 0 Rejected, Resume, Settle 1 Fulfilled])
               (map Submit [0, 1, 2] @
                [Settle 0 Rejected, Resume, Settle 1 Fulfilled, Settle 2 Fulfilled])"
    by simp
  have stuck: "\<forall>e. \<not> is_Submit e \<longrightarrow>
     limiter_step e \<lparr>maxConcurrency = 2, activeCount = 0, queue = [], resumable = [],
                   executing = [], admitted = [0, 1, 2],
                   settled = [(0, Rejected), (1, Fulfilled), (2, Fulfilled)]\<rparr> = None"
    by (simp add: limiter_step_None_iff)
  note all = limiter_batch [OF cap mk drain run]
  from all pre have first:
    "\<exists>s'. limiter_run (map Submit [0, 1, 2] @ [Settle 0 Rejected, Resume, Settle 1 Fulfilled])
            (new_limiter 2) = Some s' \<and>
         int (length (executing s')) \<le> 2 \<and> prefix (admitted s') [0, 1, 2]"
    by blast
  from all stuck have
    "set (map fst (settled
       \<lparr>maxConcurrency = 2, activeCount = 0, queue = [], resumable = [],
        executing = [], admitted = [0, 1, 2],
        settled = [(0, Rejected), (1, Fulfilled), (2, Fulfilled)]\<rparr>)) = set [0, 1, 2]"
    by blast
  with first show ?thesis
    by simp
qed

text \<open>
  Claim C4. The limiter is to admit at most \<open>N\<close> operations at any instant, in the order
  of their submission. The code does not: between \<open>next()\<close>, which lowers \<open>activeCount\<close>
  and resolves the first waiter, and that waiter's continuation, which raises it again
  without looking at it, a call of \<open>limit\<close> finds \<open>activeCount < maxConcurrency\<close> and is
  admitted at once. On a limiter of capacity one with the operations 0, 1, 2: 0 executes
  and 1 waits; 0 settles; 2 is submitted before the continuation of 1 has run; then 1
  resumes. Now 2 and 1 execute together, \<open>activeCount\<close> is 2, and 2 was admitted ahead of
  1, which was submitted before it.
\<close>

theorem limiter_exceeds_capacity:
  "createConcurrencyLimiter (JsFinite 1) = Inr (new_limiter 1) \<and>
   limiter_run [Submit 0, Submit 1, Settle 0 Fulfilled, Submit 2, Resume] (new_limiter 1) =
     Some \<lparr>maxConcurrency = 1, activeCount = 2, queue = [], resumable = [],
           executing = [2, 1], admitted = [0, 2, 1], settled = [(0, Fulfilled)]\<rparr> \<and>
   limiter_run [Submit 0, Submit 1, Settle 0 Rejected, Submit 2, Resume] (new_limiter 1) =
     Some \<lparr>maxConcurrency = 1, activeCount = 2, queue = [], resumable = [],
           executing = [2, 1], admitted = [0, 2, 1], settled = [(0, Rejected)]\<rparr>"
  by (simp add: createConcurrencyLimiter_def new_limiter_def
        limiter_admit_def limiter_next_def)

theorem limiter_exceeds_capacity_witness:
  "map_option (\<lambda>s. (maxConcurrency s < int (length (executing s)), admitted s))
     (limiter_run [Submit 0, Submit 1, Settle 0 Rejected, Submit 2, Resume] (new_limiter 1)) =
   Some (True, [0, 2, 1])"
  using limiter_exceeds_capacity by simp

section \<open>Properties of \<open>ensureWithinProject\<close>\<close>

lemma split_on_nonempty: "split_on c p \<noteq> []"
  by (induction p) (auto split: list.splits)

lemma split_on_no_sep: "s \<in> set (split_on c p) \<Longrightarrow> c \<notin> set s"
proof (induction p arbitrary: s)
  case Nil
  then show ?case by simp
next
  case (Cons x xs)
  show ?case
  proof (cases "x = c")
    case True
    with Cons show ?thesis by auto
  next
    case False
    obtain t ts where sp: "split_on c xs = t # ts"
      using split_on_nonempty[of c xs] by (cases "split_on c xs") auto
    with Cons.prems False have "s = x # t \<or> s \<in> set ts" by auto
    then show ?thesis
      using Cons.IH[of t] Cons.IH[of s] sp False by auto
  qed
qed

lemma normalize_step_plain:
  "\<forall>s\<in>set acc. plain_segment s \<Longrightarrow> CHR ''/'' \<notin> set seg \<Longrightarrow>
   \<forall>s\<in>set (normalize_step acc seg). plain_segment s"
proof -
  assume acc: "\<forall>s\<in>set acc. plain_segment s" and seg: "CHR ''/'' \<notin> set seg"
  consider (skip) "seg = [] \<or> seg = ''.''" | (up) "seg \<noteq> []" "seg \<noteq> ''.''" "seg = ''..''"
    | (name) "seg \<noteq> []" "seg \<noteq> ''.''" "seg \<noteq> ''..''"
    by blast
  then show ?thesis
  proof cases
    case skip
    then have "normalize_step acc seg = acc" by (simp only: normalize_step_def if_True)
    with acc show ?thesis by (simp only:)
  next
    case up
    then have "normalize_step acc seg = butlast acc"
      by (simp only: normalize_step_def simp_thms if_False if_True)
    with acc show ?thesis by (auto simp only: dest: in_set_butlastD)
  next
    case name
    then have "normalize_step acc seg = acc @ [seg]"
      by (simp only: normalize_step_def simp_thms if_False)
    moreover have "plain_segment seg"
      using name seg unfolding plain_segment_def by blast
    ultimately show ?thesis using acc by auto
  qed
qed

lemma foldl_normalize_plain:
  "\<forall>s\<in>set acc. plain_segment s \<Longrightarrow> \<forall>seg\<in>set segs. CHR ''/'' \<notin> set seg \<Longrightarrow>
   \<forall>s\<in>set (foldl normalize_step acc segs). plain_segment s"
proof (induction segs arbitrary: acc)
  case Nil
  then show ?case by simp
next
  case (Cons seg segs)
  have "\<forall>s\<in>set (normalize_step acc seg). plain_segment s"
    using Cons.prems by (intro normalize_step_plain) auto
  then show ?case
    using Cons.IH[of "normalize_step acc seg"] Cons.prems(2) by simp
qed

lemma normalizeString_plain: "\<forall>s\<in>set (normalizeString p). plain_segment s"
  unfolding normalizeString_def
  by (rule foldl_normalize_plain) (auto dest: split_on_no_sep)

lemma join_segments_slashed: "segs \<noteq> [] \<Longrightarrow> CHR ''/'' # join_segments segs = slashed segs"
  by (induction segs rule: join_segments.induct) (auto simp: slashed_def)

lemma slashed_Cons: "slashed (x # xs) = CHR ''/'' # x @ slashed xs"
  by (simp add: slashed_def)

lemma slashed_head: "slashed xs = [] \<or> (\<exists>t. slashed xs = CHR ''/'' # t)"
  by (cases xs) (auto simp: slashed_def)

lemma segment_split:
  assumes "CHR ''/'' \<notin> set x" "CHR ''/'' \<notin> set y"
    and "prefix (x @ CHR ''/'' # u) (y @ w)"
    and "w = [] \<or> (\<exists>t. w = CHR ''/'' # t)"
  shows "x = y \<and> prefix (CHR ''/'' # u) w"
proof -
  from assms(3) obtain z where eq: "y @ w = x @ (CHR ''/'' # u @ z)"
    by (auto simp: prefix_def)
  then consider (a) us where "y = x @ us" "us @ w = CHR ''/'' # u @ z"
    | (b) us where "y @ us = x" "w = us @ CHR ''/'' # u @ z"
    by (auto simp: append_eq_append_conv2)
  then show ?thesis
  proof cases
    case a
    have "us = []"
    proof (rule ccontr)
      assume "us \<noteq> []"
      then have "hd us = CHR ''/''" using a(2) by (cases us) auto
      then have "CHR ''/'' \<in> set y" using a(1) \<open>us \<noteq> []\<close> by (cases us) auto
      with assms(2) show False by simp
    qed
    with a show ?thesis by (auto simp: prefix_def)
  next
    case b
    have "us = []"
    proof (rule ccontr)
      assume ne: "us \<noteq> []"
      then have "w \<noteq> []" using b(2) by simp
      then obtain t where "w = CHR ''/'' # t" using assms(4) by auto
      then have "hd us = CHR ''/''" using b(2) ne by (cases us) auto
      then have "CHR ''/'' \<in> set x" using b(1) ne by (cases us) auto
      with assms(1) show False by simp
    qed
    with b show ?thesis by (auto simp: prefix_def)
  qed
qed

lemma slashed_prefix:
  assumes "\<forall>s\<in>set r. plain_segment s" "\<forall>s\<in>set a. plain_segment s"
    and "prefix (slashed r @ ''/'') (slashed a)"
  shows "prefix r a"
  using assms
proof (induction r arbitrary: a)
  case Nil
  then show ?case by simp
next
  case (Cons x r)
  show ?case
  proof (cases a)
    case Nil
    with Cons.prems(3) show ?thesis by (simp add: slashed_def)
  next
    case (Cons y a')
    obtain u where u: "slashed r @ ''/'' = CHR ''/'' # u"
      using slashed_head[of r] by auto
    have px: "CHR ''/'' \<notin> set x" and py: "CHR ''/'' \<notin> set y"
      using Cons.prems(1,2) Cons by (auto simp: plain_segment_def)
    have "prefix (x @ CHR ''/'' # u) (y @ slashed a')"
      using Cons.prems(3) Cons u by (simp add: slashed_Cons)
    from segment_split[OF px py this slashed_head]
    have "x = y" and "prefix (slashed r @ ''/'') (slashed a')"
      using u by simp_all
    moreover have "prefix r a'"
      using Cons.IH[of a'] Cons.prems(1,2) Cons \<open>prefix (slashed r @ ''/'') (slashed a')\<close>
      by simp
    ultimately show ?thesis using Cons by simp
  qed
qed

lemma slashed_inj:
  assumes "\<forall>s\<in>set r. plain_segment s" "\<forall>s\<in>set a. plain_segment s"
    and "slashed a = slashed r"
  shows "a = r"
  using assms
proof (induction r arbitrary: a)
  case Nil
  then show ?case by (cases a) (auto simp: slashed_def)
next
  case (Cons x r)
  show ?case
  proof (cases a)
    case Nil
    with Cons.prems(3) show ?thesis by (simp add: slashed_def)
  next
    case (Cons y a')
    have px: "CHR ''/'' \<notin> set x" and py: "CHR ''/'' \<notin> set y"
      using Cons.prems(1,2) Cons by (auto simp: plain_segment_def)
    have eq: "y @ slashed a' = x @ slashed r"
      using Cons.prems(3) Cons by (simp add: slashed_Cons)
    have "x = y \<and> slashed a' = slashed r"
    proof -
      from eq consider (a) us where "y = x @ us" "us @ slashed a' = slashed r"
        | (b) us where "y @ us = x" "slashed a' = us @ slashed r"
        by (auto simp: append_eq_append_conv2)
      then show ?thesis
      proof cases
        case a
        have "us = []"
        proof (rule ccontr)
          assume ne: "us \<noteq> []"
          then have "slashed r \<noteq> []" using a(2) by auto
          then obtain t where "slashed r = CHR ''/'' # t" using slashed_head[of r] by auto
          then have "hd us = CHR ''/''" using a(2) ne by (cases us) auto
          then have "CHR ''/'' \<in> set y" using a(1) ne by (cases us) auto
          with py show False by simp
        qed
        with a show ?thesis by simp
      next
        case b
        have "us = []"
        proof (rule ccontr)
          assume ne: "us \<noteq> []"
          then have "slashed a' \<noteq> []" using b(2) by auto
          then obtain t where "slashed a' = CHR ''/'' # t" using slashed_head[of a'] by auto
          then have "hd us = CHR ''/''" using b(2) ne by (cases us) auto
          then have "CHR ''/'' \<in> set x" using b(1) ne by (cases us) auto
          with px show False by simp
        qed
        with b show ?thesis by simp
      qed
    qed
    then show ?thesis
      using Cons.IH[of a'] Cons.prems(1,2) Cons by simp
  qed
qed

lemma path_resolve_slashed:
  "path_resolve cwd args =
     (if resolved_segments cwd args = [] then ''/'' else slashed (resolved_segments cwd args))"
  by (simp add: path_resolve_def join_segments_slashed)

lemma resolved_segments_plain: "\<forall>s\<in>set (resolved_segments cwd args). plain_segment s"
  unfolding resolved_segments_def by (rule normalizeString_plain)

lemma slashed_plain_length:
  assumes "\<forall>s\<in>set a. plain_segment s" "a \<noteq> []"
  shows "2 \<le> length (slashed a)"
proof -
  obtain x xs where a: "a = x # xs" using assms(2) by (cases a) auto
  then have "x \<noteq> []" using assms(1) by (simp add: plain_segment_def)
  then have "1 \<le> length x" by (cases x) auto
  then show ?thesis using a by (simp add: slashed_Cons)
qed

lemma slashed_second_char:
  assumes "\<forall>s\<in>set a. plain_segment s"
  shows "\<not> prefix ''//'' (slashed a)"
proof (cases a)
  case Nil
  then show ?thesis by (simp add: slashed_def)
next
  case (Cons x xs)
  then have "x \<noteq> []" and "CHR ''/'' \<notin> set x"
    using assms by (simp_all add: plain_segment_def)
  then obtain c cs where "x = c # cs" "c \<noteq> CHR ''/''" by (cases x) auto
  then show ?thesis using Cons by (simp add: slashed_Cons)
qed

lemma within_root_segments:
  assumes r: "\<forall>s\<in>set r. plain_segment s" and a: "\<forall>s\<in>set a. plain_segment s"
    and ok: "prefix ((if r = [] then ''/'' else slashed r) @ ''/'')
                    (if a = [] then ''/'' else slashed a)
             \<or> (if a = [] then ''/'' else slashed a) = (if r = [] then ''/'' else slashed r)"
  shows "prefix r a"
proof (cases "r = []")
  case True
  then show ?thesis by simp
next
  case rne: False
  have lr: "2 \<le> length (slashed r)" using slashed_plain_length[OF r rne] .
  show ?thesis
  proof (cases "a = []")
    case True
    with ok rne lr show ?thesis
      by (auto simp: prefix_def dest: arg_cong[where f = length])
  next
    case False
    with ok rne have "prefix (slashed r @ ''/'') (slashed a) \<or> slashed a = slashed r"
      by simp
    then show ?thesis
      using slashed_prefix[OF r a] slashed_inj[OF r a] by auto
  qed
qed

text \<open>
  Claim C9. Whenever the resolution of \<open>relPath\<close> against the project root escapes the
  root (the segments of the resolved root are not a prefix of the segments of the resolved
  path, for example through \<open>..\<close>), \<open>ensureWithinProject\<close> throws. When it returns, it
  returns the resolved path, which is the root followed by ordinary names only.
\<close>

theorem ensureWithinProject_contained:
  "(ensureWithinProject cwd projectRootPath relPath = Inr p \<longrightarrow>
      p = path_resolve cwd [projectRootPath, clean_relPath relPath] \<and>
      prefix (resolved_segments cwd [projectRootPath])
             (resolved_segments cwd [projectRootPath, clean_relPath relPath]) \<and>
      (\<forall>s\<in>set (resolved_segments cwd [projectRootPath, clean_relPath relPath]).
          plain_segment s)) \<and>
   (\<not> prefix (resolved_segments cwd [projectRootPath])
             (resolved_segments cwd [projectRootPath, clean_relPath relPath]) \<longrightarrow>
      ensureWithinProject cwd projectRootPath relPath = Inl InvalidPath)"
proof -
  let ?r = "resolved_segments cwd [projectRootPath]"
  let ?a = "resolved_segments cwd [projectRootPath, clean_relPath relPath]"
  have acc: "prefix ?r ?a"
    if "ensureWithinProject cwd projectRootPath relPath \<noteq> Inl InvalidPath"
  proof -
    from that have
      "prefix (path_resolve cwd [projectRootPath] @ ''/'')
              (path_resolve cwd [projectRootPath, clean_relPath relPath])
       \<or> path_resolve cwd [projectRootPath, clean_relPath relPath] =
           path_resolve cwd [projectRootPath]"
      unfolding ensureWithinProject_def Let_def by (auto split: if_splits)
    then show ?thesis
      unfolding path_resolve_slashed
      by (intro within_root_segments resolved_segments_plain)
  qed
  have val: "p = path_resolve cwd [projectRootPath, clean_relPath relPath]"
    if "ensureWithinProject cwd projectRootPath relPath = Inr p"
    using that unfolding ensureWithinProject_def Let_def by (auto split: if_splits)
  show ?thesis
    using acc val resolved_segments_plain[of cwd "[projectRootPath, clean_relPath relPath]"]
    by (metis Inl_Inr_False)
qed

theorem ensureWithinProject_contained_witness:
  "ensureWithinProject ''/srv'' ''/home/u/deck'' ''images/slide-0001/v2.png'' =
     Inr ''/home/u/deck/images/slide-0001/v2.png'' \<and>
   prefix (resolved_segments ''/srv'' [''/home/u/deck''])
          (resolved_segments ''/srv'' [''/home/u/deck'', clean_relPath ''images/slide-0001/v2.png'']) \<and>
   \<not> prefix (resolved_segments ''/srv'' [''/home/u/deck''])
          (resolved_segments ''/srv'' [''/home/u/deck'', clean_relPath ''images/../../../etc/passwd'']) \<and>
   ensureWithinProject ''/srv'' ''/home/u/deck'' ''images/../../../etc/passwd'' = Inl InvalidPath"
proof -
  have ok: "ensureWithinProject ''/srv'' ''/home/u/deck'' ''images/slide-0001/v2.png'' =
     Inr ''/home/u/deck/images/slide-0001/v2.png''"
    by (simp add: ensureWithinProject_def clean_relPath_def path_resolve_def resolved_segments_def
        normalizeString_def normalize_step_def)
  have esc: "\<not> prefix (resolved_segments ''/srv'' [''/home/u/deck''])
          (resolved_segments ''/srv'' [''/home/u/deck'', clean_relPath ''images/../../../etc/passwd''])"
    by (simp add: clean_relPath_def resolved_segments_def normalizeString_def normalize_step_def)
  from ensureWithinProject_contained
         [of "''/srv''" "''/home/u/deck''" "''images/slide-0001/v2.png''"
             "''/home/u/deck/images/slide-0001/v2.png''"] ok
  have "prefix (resolved_segments ''/srv'' [''/home/u/deck''])
          (resolved_segments ''/srv'' [''/home/u/deck'', clean_relPath ''images/slide-0001/v2.png''])"
    by blast
  moreover from ensureWithinProject_contained
         [of "''/srv''" "''/home/u/deck''" "''images/../../../etc/passwd''"] esc
  have "ensureWithinProject ''/srv'' ''/home/u/deck'' ''images/../../../etc/passwd'' = Inl InvalidPath"
    by blast
  ultimately show ?thesis using ok esc by blast
qed

section \<open>Properties of the store\<close>

declare string_of_nat.simps [simp del]

declare strip.simps [simp del]

lemma setSlideStatus_frame [simp]:
  "db_versions (setSlideStatus sid st msg w) = db_versions w"
  "files (setSlideStatus sid st msg w) = files w"
  "db_outlines (setSlideStatus sid st msg w) = db_outlines w"
  "db_themes (setSlideStatus sid st msg w) = db_themes w"
  by (simp_all add: setSlideStatus_def)

lemma setSlideStatus_patch_frame [simp]:
  "db_versions (setSlideStatus_patch sid st msg c w) = db_versions w"
  "files (setSlideStatus_patch sid st msg c w) = files w"
  "db_outlines (setSlideStatus_patch sid st msg c w) = db_outlines w"
  "db_themes (setSlideStatus_patch sid st msg c w) = db_themes w"
  by (simp_all add: setSlideStatus_patch_def)

lemma setSlideStatus_twice:
  "db_slides (setSlideStatus sid st2 m2 (setSlideStatus sid st1 m1 w)) =
   db_slides (setSlideStatus sid st2 m2 w)"
  by (simp add: setSlideStatus_def)

lemma setSlideStatus_slides_frame:
  "db_versions w1 = db_versions w \<Longrightarrow> db_slides w1 = db_slides w \<Longrightarrow>
   db_slides (setSlideStatus sid st m w1) = db_slides (setSlideStatus sid st m w)"
  by (simp add: setSlideStatus_def)

lemma write_file_frame [simp]:
  "db_versions (write_file p b w) = db_versions w"
  "db_slides (write_file p b w) = db_slides w"
  "db_outlines (write_file p b w) = db_outlines w"
  "db_themes (write_file p b w) = db_themes w"
  "files (write_file p b w) = (files w)(p \<mapsto> b)"
  by (simp_all add: write_file_def)

lemma insert_image_version_ok:
  "iv_slide_id row \<in> set (map slide_id (db_slides w)) \<Longrightarrow>
   insert_image_version row w = Inr (w\<lparr>db_versions := db_versions w @ [row]\<rparr>)"
  by (simp add: insert_image_version_def)

lemma insert_image_version_refused:
  "iv_slide_id row \<notin> set (map slide_id (db_slides w)) \<Longrightarrow>
   insert_image_version row w = Inl ForeignKey"
  by (simp add: insert_image_version_def)

lemma insert_image_version_Inr:
  "insert_image_version row w = Inr w1 \<Longrightarrow>
   w1 = w\<lparr>db_versions := db_versions w @ [row]\<rparr> \<and>
   iv_slide_id row \<in> set (map slide_id (db_slides w))"
  by (auto simp: insert_image_version_def split: if_splits)

lemma insert_image_version_Inl:
  "insert_image_version row w = Inl e \<Longrightarrow>
   e = ForeignKey \<and> iv_slide_id row \<notin> set (map slide_id (db_slides w))"
  by (auto simp: insert_image_version_def split: if_splits)

lemma setSlideStatus_ids [simp]:
  "map slide_id (db_slides (setSlideStatus sid st msg w)) = map slide_id (db_slides w)"
  "map slide_id (db_slides (setSlideStatus_patch sid st msg c w)) = map slide_id (db_slides w)"
  by (simp_all add: setSlideStatus_def setSlideStatus_patch_def comp_def)

lemma versions_of_cong:
  "db_versions w1 = db_versions w \<Longrightarrow> versions_of w1 sid = versions_of w sid"
  by (simp add: versions_of_def)

lemma next_image_version_cong:
  "db_versions w1 = db_versions w \<Longrightarrow> next_image_version w1 sid = next_image_version w sid"
  by (simp add: next_image_version_def max_version_def versions_of_def)

lemma fold_max_upto: "a \<le> b \<Longrightarrow> fold max [a + 1..b] a = (b::int)"
proof (induction "nat (b - a)" arbitrary: a)
  case 0
  then have "a = b" by simp
  then show ?case by simp
next
  case (Suc n)
  then have lt: "a < b" by simp
  then have up: "[a + 1..b] = (a + 1) # [a + 1 + 1..b]"
    by (simp add: upto_rec1)
  have "fold max [a + 1 + 1..b] (a + 1) = b"
    using Suc.hyps(1)[of "a + 1"] Suc.hyps(2) lt by simp
  then show ?case
    by (simp add: up)
qed

lemma next_image_version_numbered:
  assumes "map version (versions_of w sid) = [1..m]"
  shows "next_image_version w sid = (if 1 \<le> m then m + 1 else 1)"
proof (cases "1 \<le> m")
  case True
  then have "[1..m] = 1 # [1 + 1..m]" by (simp add: upto_rec1)
  moreover have "fold max [1 + 1..m] 1 = m" using True by (rule fold_max_upto)
  ultimately show ?thesis
    using assms True by (simp add: next_image_version_def max_version_def)
next
  case False
  then show ?thesis
    using assms by (simp add: next_image_version_def max_version_def)
qed

section \<open>Properties of \<open>restoreSlideImageVersion\<close> and \<open>regenerateSlideImage\<close>\<close>

lemma find_version_numbered:
  assumes "find (\<lambda>v. iv_slide_id v = sid \<and> version v = ver) (db_versions w) = Some src"
    and "map version (versions_of w sid) = [1..m]"
  shows "1 \<le> m"
proof -
  from assms(1) have "src \<in> set (db_versions w)" and "iv_slide_id src = sid"
    by (auto simp: find_Some_iff)
  then have "src \<in> set (versions_of w sid)"
    by (simp add: versions_of_def)
  then have "versions_of w sid \<noteq> []" by auto
  then have "[1..m] \<noteq> []" using assms(2) by (metis map_is_Nil_conv)
  then show ?thesis by (simp split: if_splits)
qed

lemma restore_begin_ok:
  assumes "find_slide w slideId projectId = Some slide"
    and "find (\<lambda>v. iv_slide_id v = slideId \<and> version v = ver) (db_versions w) = Some src"
  shows "restore_begin projectId slideId ver w =
           (Inr (Restoring slideId
                  \<lparr>rs_deckIndex = count_before w projectId slide,
                   rs_srcPromptText = prompt_text src,
                   rs_srcImagePath = image_path src,
                   rs_nextVersion = next_image_version w slideId\<rparr>),
            setSlideStatus slideId Generating_image None w)"
  using assms by (simp add: restore_begin_def restore_resolve_def)

lemma restore_begin_missing:
  assumes "find (\<lambda>v. iv_slide_id v = slideId \<and> version v = ver) (db_versions w) = None"
  shows "restore_begin projectId slideId ver w =
           (Inl (if find_slide w slideId projectId = None then SlideNotFound
                 else VersionNotFound), w)"
  using assms by (simp add: restore_begin_def restore_resolve_def split: option.splits)

text \<open>
  Claim C2. For a slide of the project whose versions are \<open>1..M\<close>, \<open>restore\<close> with a
  target version \<open>V\<close> that exists, whose image path lies in the project and names a file
  that is there, inserts exactly one row after the rows there were: version \<open>M + 1\<close>, the
  prompt text of \<open>V\<close>, the provider \<open>restore\<close>, no request and no response. The file of
  the new row holds the bytes of \<open>V\<close>'s file, the slide is \<open>ready\<close> without an error
  message, and nothing else changes. If \<open>V\<close> does not exist for the slide, \<open>restore\<close>
  throws and changes nothing.
\<close>

theorem restore_inserts_copy:
  "(find_slide w slideId projectId = Some slide \<and>
    map version (versions_of w slideId) = [1..M] \<and>
    find (\<lambda>v. iv_slide_id v = slideId \<and> version v = V) (db_versions w) = Some src \<and>
    ensureWithinProject cwd rootPath (image_path src) = Inr absSrc \<and>
    files w absSrc = Some bytes \<and>
    ensureWithinProject cwd rootPath
      (image_rel_path (count_before w projectId slide) (M + 1) (restore_ext (image_path src)))
      = Inr absDest \<longrightarrow>
      restoreSlideImageVersion cwd rootPath projectId slideId V None w =
        (Inr \<lparr>res_version = M + 1, res_promptText = prompt_text src,
              res_imagePath = image_rel_path (count_before w projectId slide) (M + 1)
                                (restore_ext (image_path src))\<rparr>,
         w\<lparr>db_versions := db_versions w @
               [\<lparr>iv_slide_id = slideId, version = M + 1, prompt_text = prompt_text src,
                 image_path = image_rel_path (count_before w projectId slide) (M + 1)
                                (restore_ext (image_path src)),
                 provider = Some ''restore'', request_json = None, response_json = None\<rparr>],
           db_slides := map (\<lambda>r. if slide_id r = slideId
                                  then r\<lparr>status := Ready, error_message := None\<rparr> else r)
                            (db_slides w),
           files := (files w)(absDest \<mapsto> bytes)\<rparr>)) \<and>
   (find (\<lambda>v. iv_slide_id v = slideId \<and> version v = V) (db_versions w) = None \<longrightarrow>
      restoreSlideImageVersion cwd rootPath projectId slideId V fault w =
        (Inl (if find_slide w slideId projectId = None then SlideNotFound else VersionNotFound),
         w))"
proof (intro conjI impI)
  assume a: "find_slide w slideId projectId = Some slide \<and>
    map version (versions_of w slideId) = [1..M] \<and>
    find (\<lambda>v. iv_slide_id v = slideId \<and> version v = V) (db_versions w) = Some src \<and>
    ensureWithinProject cwd rootPath (image_path src) = Inr absSrc \<and>
    files w absSrc = Some bytes \<and>
    ensureWithinProject cwd rootPath
      (image_rel_path (count_before w projectId slide) (M + 1) (restore_ext (image_path src)))
      = Inr absDest"
  let ?dest = "image_rel_path (count_before w projectId slide) (M + 1)
                 (restore_ext (image_path src))"
  let ?resolved = "\<lparr>rs_deckIndex = count_before w projectId slide,
                    rs_srcPromptText = prompt_text src,
                    rs_srcImagePath = image_path src,
                    rs_nextVersion = next_image_version w slideId\<rparr>"
  let ?w1 = "setSlideStatus slideId Generating_image None w"
  have M: "1 \<le> M"
    using a find_version_numbered by blast
  have nv: "next_image_version w slideId = M + 1"
    using a M next_image_version_numbered[of w slideId M] by simp
  have dest: "restore_dest ?resolved = ?dest"
    by (simp add: restore_dest_def nv)
  have beg: "restore_begin projectId slideId V w = (Inr (Restoring slideId ?resolved), ?w1)"
    using a restore_begin_ok by blast
  have copy: "restore_copy cwd rootPath ?resolved None ?w1 = (Inr ?dest, write_file absDest bytes ?w1)"
    using a by (simp add: restore_copy_def dest)
  let ?row = "restored_row slideId (M + 1) (prompt_text src) ?dest"
  have "slideId \<in> set (map slide_id (db_slides w))"
    using a by (auto simp: find_slide_def find_Some_iff)
  then have "iv_slide_id ?row \<in> set (map slide_id (db_slides (write_file absDest bytes ?w1)))"
    by (simp add: restored_row_def)
  then have ins: "insert_image_version ?row (write_file absDest bytes ?w1) =
      Inr ((write_file absDest bytes ?w1)
             \<lparr>db_versions := db_versions (write_file absDest bytes ?w1) @ [?row]\<rparr>)"
    by (rule insert_image_version_ok)
  have fin: "restore_finish no_store_faults cwd rootPath slideId ?resolved None ?w1 =
      (Inr \<lparr>res_version = M + 1, res_promptText = prompt_text src, res_imagePath = ?dest\<rparr>,
       setSlideStatus slideId Ready None
         ((write_file absDest bytes ?w1)
             \<lparr>db_versions := db_versions (write_file absDest bytes ?w1) @ [?row]\<rparr>))"
    unfolding restore_finish_def copy
    by (simp add: nv insert_then_ready_def no_store_faults_def ins)
  have st: "setSlideStatus slideId Ready None
         ((write_file absDest bytes ?w1)\<lparr>db_versions := db_versions w @ [?row]\<rparr>) =
        w\<lparr>db_versions := db_versions w @
               [\<lparr>iv_slide_id = slideId, version = M + 1, prompt_text = prompt_text src,
                 image_path = ?dest,
                 provider = Some ''restore'', request_json = None, response_json = None\<rparr>],
           db_slides := map (\<lambda>r. if slide_id r = slideId
                                  then r\<lparr>status := Ready, error_message := None\<rparr> else r)
                            (db_slides w),
           files := (files w)(absDest \<mapsto> bytes)\<rparr>"
    by (simp add: setSlideStatus_def write_file_def restored_row_def)
  show "restoreSlideImageVersion cwd rootPath projectId slideId V None w =
        (Inr \<lparr>res_version = M + 1, res_promptText = prompt_text src, res_imagePath = ?dest\<rparr>,
         w\<lparr>db_versions := db_versions w @
               [\<lparr>iv_slide_id = slideId, version = M + 1, prompt_text = prompt_text src,
                 image_path = ?dest,
                 provider = Some ''restore'', request_json = None, response_json = None\<rparr>],
           db_slides := map (\<lambda>r. if slide_id r = slideId
                                  then r\<lparr>status := Ready, error_message := None\<rparr> else r)
                            (db_slides w),
           files := (files w)(absDest \<mapsto> bytes)\<rparr>)"
    unfolding restoreSlideImageVersion_def restoreSlideImageVersion_sf_def beg
    by (simp add: fin st)
next
  assume "find (\<lambda>v. iv_slide_id v = slideId \<and> version v = V) (db_versions w) = None"
  then show "restoreSlideImageVersion cwd rootPath projectId slideId V fault w =
        (Inl (if find_slide w slideId projectId = None then SlideNotFound else VersionNotFound),
         w)"
    unfolding restoreSlideImageVersion_def restoreSlideImageVersion_sf_def
    by (simp add: restore_begin_missing)
qed


lemma generate_failed:
  "resp = Service_failed e \<or> resp = Written_then_failed bytes mimeType e \<Longrightarrow>
   fst (generateImageToProject cwd rootPath deckIndex ver promptText resp w) = Inl e \<and>
   db_versions (snd (generateImageToProject cwd rootPath deckIndex ver promptText resp w)) =
     db_versions w \<and>
   db_slides (snd (generateImageToProject cwd rootPath deckIndex ver promptText resp w)) =
     db_slides w"
  by (auto simp: generateImageToProject_def)

lemma setSlideStatus_slides:
  "db_slides (setSlideStatus sid st m w) =
     map (\<lambda>r. if slide_id r = sid then r\<lparr>status := st, error_message := m\<rparr> else r)
         (db_slides w)"
  by (simp add: setSlideStatus_def)

lemma setSlideStatus_patch_slides:
  "db_slides (setSlideStatus_patch sid st m None w) =
     map (\<lambda>r. if slide_id r = sid then r\<lparr>status := st, error_message := m\<rparr> else r)
         (db_slides w)"
  by (simp add: setSlideStatus_patch_def)

lemma status_map_twice:
  "map (\<lambda>r. if slide_id r = sid then r\<lparr>status := st2, error_message := m2\<rparr> else r)
     (map (\<lambda>r. if slide_id r = sid then r\<lparr>status := st1, error_message := m1\<rparr> else r) rows) =
   map (\<lambda>r. if slide_id r = sid then r\<lparr>status := st2, error_message := m2\<rparr> else r) rows"
  by (induction rows) auto

subsection \<open>The callback and the catch block\<close>




lemma left_status_ids [simp]: "map slide_id (left_status sf sid e rows) = map slide_id rows"
  by (simp add: left_status_def comp_def split: option.splits)

lemma first_failure_produced [simp]: "first_failure sf (Some e) present = Some e"
  by (simp add: first_failure_def)

lemma row_recorded_produced [simp]: "\<not> row_recorded sf (Some e) present"
  by (simp add: row_recorded_def)


subsection \<open>The second half of each operation\<close>








subsection \<open>Failures after the slide was marked\<close>





section \<open>The small project: restore, and failures\<close>

lemma demo_find_slide1: "find_slide demo_world ''s1'' ''p'' = Some demo_slide1"
  by (simp add: find_slide_def demo_world_def demo_slide1_def)

lemma demo_versions_s1: "map version (versions_of demo_world ''s1'') = [1..2]"
  by (simp add: versions_of_def demo_world_def demo_version1_def demo_version2_def upto_1_2)

lemma demo_find_v1:
  "find (\<lambda>v. iv_slide_id v = ''s1'' \<and> version v = 1) (db_versions demo_world) = Some demo_version1"
  by (simp add: demo_world_def demo_version1_def)

lemma demo_find_v7:
  "find (\<lambda>v. iv_slide_id v = ''s1'' \<and> version v = 7) (db_versions demo_world) = None"
  by (simp add: demo_world_def demo_version1_def demo_version2_def)

lemma demo_src_path:
  "ensureWithinProject ''/srv'' ''/home/u/deck'' (image_path demo_version1) =
     Inr ''/home/u/deck/images/slide-0001/v1.png''"
  by (simp add: demo_version1_def ensureWithinProject_def clean_relPath_def path_resolve_def
      resolved_segments_def normalizeString_def normalize_step_def)

lemma demo_count_s1: "count_before demo_world ''p'' demo_slide1 = 0"
  by (simp add: count_before_def demo_world_def demo_slide1_def demo_slide2_def demo_slide3_def)

lemma string_of_nat_digit: "n < 10 \<Longrightarrow> string_of_nat n = [''0123456789'' ! n]"
  by (simp add: string_of_nat.simps)

lemma slideDirName_0: "slideDirName 0 = ''slide-0001''"
  by (simp add: slideDirName_def pad4_def string_of_nat_digit eval_nat_numeral)

lemma demo_dest_rel:
  "image_rel_path 0 3 (restore_ext (image_path demo_version1)) = ''images/slide-0001/v3.png''"
  by (simp add: image_rel_path_def slideDirName_0 string_of_int_def string_of_nat_digit
      restore_ext_def path_extname_def path_last_segment_def demo_version1_def)

lemma demo_dest_path:
  "ensureWithinProject ''/srv'' ''/home/u/deck'' ''images/slide-0001/v3.png'' =
     Inr ''/home/u/deck/images/slide-0001/v3.png''"
  by (simp add: ensureWithinProject_def clean_relPath_def path_resolve_def
      resolved_segments_def normalizeString_def normalize_step_def)

theorem restore_inserts_copy_witness:
  "restoreSlideImageVersion ''/srv'' ''/home/u/deck'' ''p'' ''s1'' 1 None demo_world =
     (Inr \<lparr>res_version = 3, res_promptText = ''first prompt'',
           res_imagePath = ''images/slide-0001/v3.png''\<rparr>,
      demo_world\<lparr>db_versions := [demo_version1, demo_version2,
            \<lparr>iv_slide_id = ''s1'', version = 3, prompt_text = ''first prompt'',
             image_path = ''images/slide-0001/v3.png'',
             provider = Some ''restore'', request_json = None, response_json = None\<rparr>],
         db_slides := [demo_slide1, demo_slide2, demo_slide3],
         files := (files demo_world)(''/home/u/deck/images/slide-0001/v3.png'' \<mapsto> ''PNG-1'')\<rparr>) \<and>
   restoreSlideImageVersion ''/srv'' ''/home/u/deck'' ''p'' ''s1'' 7 None demo_world =
     (Inl VersionNotFound, demo_world)"
proof -
  have bytes: "files demo_world ''/home/u/deck/images/slide-0001/v1.png'' = Some ''PNG-1''"
    by (simp add: demo_world_def)
  have slides: "map (\<lambda>r. if slide_id r = ''s1'' then r\<lparr>status := Ready, error_message := None\<rparr> else r)
                  (db_slides demo_world) = [demo_slide1, demo_slide2, demo_slide3]"
    by (simp add: demo_world_def demo_slide1_def demo_slide2_def demo_slide3_def)
  have rows: "db_versions demo_world = [demo_version1, demo_version2]"
    by (simp add: demo_world_def)
  have prompt: "prompt_text demo_version1 = ''first prompt''"
    by (simp add: demo_version1_def)
  have dest: "ensureWithinProject ''/srv'' ''/home/u/deck''
      (image_rel_path (count_before demo_world ''p'' demo_slide1) (2 + 1)
         (restore_ext (image_path demo_version1))) =
      Inr ''/home/u/deck/images/slide-0001/v3.png''"
    by (simp add: demo_count_s1 demo_dest_rel demo_dest_path)
  have hyp: "find_slide demo_world ''s1'' ''p'' = Some demo_slide1 \<and>
    map version (versions_of demo_world ''s1'') = [1..2] \<and>
    find (\<lambda>v. iv_slide_id v = ''s1'' \<and> version v = 1) (db_versions demo_world) = Some demo_version1 \<and>
    ensureWithinProject ''/srv'' ''/home/u/deck'' (image_path demo_version1) =
      Inr ''/home/u/deck/images/slide-0001/v1.png'' \<and>
    files demo_world ''/home/u/deck/images/slide-0001/v1.png'' = Some ''PNG-1'' \<and>
    ensureWithinProject ''/srv'' ''/home/u/deck''
      (image_rel_path (count_before demo_world ''p'' demo_slide1) (2 + 1)
         (restore_ext (image_path demo_version1))) =
      Inr ''/home/u/deck/images/slide-0001/v3.png''"
    using demo_find_slide1 demo_versions_s1 demo_find_v1 demo_src_path bytes dest by blast
  note thm1 = restore_inserts_copy
      [of demo_world "''s1''" "''p''" demo_slide1 2 1 demo_version1 "''/srv''" "''/home/u/deck''"
          "''/home/u/deck/images/slide-0001/v1.png''" "''PNG-1''"
          "''/home/u/deck/images/slide-0001/v3.png''" None, THEN conjunct1, THEN mp, OF hyp]
  note thm7 = restore_inserts_copy
      [of demo_world "''s1''" "''p''" demo_slide1 2 7 demo_version1 "''/srv''" "''/home/u/deck''"
          "''/home/u/deck/images/slide-0001/v1.png''" "''PNG-1''"
          "''/home/u/deck/images/slide-0001/v3.png''" None, THEN conjunct2, THEN mp, OF demo_find_v7]
  have rel: "image_rel_path (count_before demo_world ''p'' demo_slide1) (2 + 1)
         (restore_ext (image_path demo_version1)) = ''images/slide-0001/v3.png''"
    by (simp add: demo_count_s1 demo_dest_rel)
  have one: "restoreSlideImageVersion ''/srv'' ''/home/u/deck'' ''p'' ''s1'' 1 None demo_world =
     (Inr \<lparr>res_version = 3, res_promptText = ''first prompt'',
           res_imagePath = ''images/slide-0001/v3.png''\<rparr>,
      demo_world\<lparr>db_versions := [demo_version1, demo_version2,
            \<lparr>iv_slide_id = ''s1'', version = 3, prompt_text = ''first prompt'',
             image_path = ''images/slide-0001/v3.png'',
             provider = Some ''restore'', request_json = None, response_json = None\<rparr>],
         db_slides := [demo_slide1, demo_slide2, demo_slide3],
         files := (files demo_world)(''/home/u/deck/images/slide-0001/v3.png'' \<mapsto> ''PNG-1'')\<rparr>)"
    unfolding thm1 rel slides rows prompt by simp
  have two: "restoreSlideImageVersion ''/srv'' ''/home/u/deck'' ''p'' ''s1'' 7 None demo_world =
     (Inl VersionNotFound, demo_world)"
    unfolding thm7 by (simp add: demo_find_slide1)
  from one two show ?thesis by simp
qed

subsection \<open>Failures on the small project\<close>






section \<open>Properties of the Outline stage\<close>

lemma fold_delete_versions_of:
  "fold delete_versions_of ids w =
     w\<lparr>db_versions := filter (\<lambda>v. iv_slide_id v \<notin> set ids) (db_versions w)\<rparr>"
proof (induction ids arbitrary: w)
  case Nil
  then show ?case by simp
next
  case (Cons i ids)
  have f: "filter (\<lambda>v. iv_slide_id v \<notin> set ids) (filter (\<lambda>v. iv_slide_id v \<noteq> i) (db_versions w)) =
        filter (\<lambda>v. iv_slide_id v \<notin> set (i # ids)) (db_versions w)"
    by (induction "db_versions w") auto
  have "fold delete_versions_of (i # ids) w = fold delete_versions_of ids (delete_versions_of i w)"
    by simp
  also have "\<dots> = (delete_versions_of i w)
      \<lparr>db_versions := filter (\<lambda>v. iv_slide_id v \<notin> set ids)
                        (db_versions (delete_versions_of i w))\<rparr>"
    by (rule Cons.IH)
  also have "\<dots> = w\<lparr>db_versions := filter (\<lambda>v. iv_slide_id v \<notin> set (i # ids)) (db_versions w)\<rparr>"
    using f by (simp add: delete_versions_of_def)
  finally show ?case .
qed

lemma clearSlides_eq:
  "clearSlides projectId w =
     w\<lparr>db_versions :=
         filter (\<lambda>v. iv_slide_id v \<notin>
                      set (map slide_id (filter (\<lambda>r. project_id r = projectId) (db_slides w))))
                (db_versions w),
       db_slides := filter (\<lambda>r. project_id r \<noteq> projectId) (db_slides w)\<rparr>"
  by (simp add: clearSlides_def Let_def fold_delete_versions_of)

lemma insert_sections_rows:
  "r \<in> set (insert_sections uuid projectId sectionIndex deckIndex secs) \<Longrightarrow>
   project_id r = projectId \<and> status r = Pending \<and> content_json r = None \<and>
   error_message r = None"
  by (induction secs arbitrary: sectionIndex deckIndex) (auto simp: new_slide_row_def)

lemma insert_sections_length:
  "length (insert_sections uuid projectId sectionIndex deckIndex secs) =
   length (concat (map sec_slides secs))"
  by (induction secs arbitrary: sectionIndex deckIndex) auto

lemma commit_outline_eq:
  "commit_outline uuid projectId ol w =
     (length (concat (map sec_slides ol)),
      (clearSlides projectId w)
        \<lparr>db_outlines := db_outlines w @ [(projectId, next_outline_version w projectId, ol)],
         db_slides := db_slides (clearSlides projectId w) @ insert_sections uuid projectId 0 0 ol\<rparr>)"
  by (simp add: commit_outline_def Let_def insert_sections_length clearSlides_eq)

text \<open>
  Claim C8. The commit of a new outline first clears the project: after \<open>clearSlides\<close>
  no slide row of the project is left and no image-version row of any of its slides; the
  rows of other projects stay. The new slide rows are then appended to the cleared
  table, all \<open>pending\<close>, without content and without error message, one for each slide
  of the outline. If every image-version row referred to a slide row before, every one
  that is left does so afterwards.
\<close>

theorem outline_commit_clears:
  "db_slides (clearSlides projectId w) = filter (\<lambda>r. project_id r \<noteq> projectId) (db_slides w) \<and>
   db_versions (clearSlides projectId w) =
     filter (\<lambda>v. \<not> (\<exists>r\<in>set (db_slides w). project_id r = projectId \<and> slide_id r = iv_slide_id v))
            (db_versions w) \<and>
   db_slides (snd (commit_outline uuid projectId ol w)) =
     db_slides (clearSlides projectId w) @ insert_sections uuid projectId 0 0 ol \<and>
   db_versions (snd (commit_outline uuid projectId ol w)) = db_versions (clearSlides projectId w) \<and>
   fst (commit_outline uuid projectId ol w) = length (concat (map sec_slides ol)) \<and>
   length (insert_sections uuid projectId 0 0 ol) = length (concat (map sec_slides ol)) \<and>
   (\<forall>r\<in>set (db_slides (snd (commit_outline uuid projectId ol w))).
       project_id r = projectId \<longrightarrow>
         r \<in> set (insert_sections uuid projectId 0 0 ol) \<and> status r = Pending \<and>
         content_json r = None \<and> error_message r = None) \<and>
   ((\<forall>v\<in>set (db_versions w). \<exists>r\<in>set (db_slides w). slide_id r = iv_slide_id v) \<longrightarrow>
    (\<forall>v\<in>set (db_versions (snd (commit_outline uuid projectId ol w))).
        \<exists>r\<in>set (db_slides (snd (commit_outline uuid projectId ol w))).
           slide_id r = iv_slide_id v))"
proof -
  have vs: "db_versions (clearSlides projectId w) =
     filter (\<lambda>v. \<not> (\<exists>r\<in>set (db_slides w). project_id r = projectId \<and> slide_id r = iv_slide_id v))
            (db_versions w)"
  proof -
    have "(iv_slide_id v \<notin> set (map slide_id (filter (\<lambda>r. project_id r = projectId) (db_slides w))))
          = (\<not> (\<exists>r\<in>set (db_slides w). project_id r = projectId \<and> slide_id r = iv_slide_id v))"
      for v by force
    then have "filter (\<lambda>v. iv_slide_id v \<notin>
                      set (map slide_id (filter (\<lambda>r. project_id r = projectId) (db_slides w))))
                (db_versions w) =
          filter (\<lambda>v. \<not> (\<exists>r\<in>set (db_slides w). project_id r = projectId \<and> slide_id r = iv_slide_id v))
            (db_versions w)"
      by (intro filter_cong refl)
    then show ?thesis
      unfolding clearSlides_eq by simp
  qed
  have pend: "\<forall>r\<in>set (db_slides (snd (commit_outline uuid projectId ol w))).
       project_id r = projectId \<longrightarrow>
         r \<in> set (insert_sections uuid projectId 0 0 ol) \<and> status r = Pending \<and>
         content_json r = None \<and> error_message r = None"
    using insert_sections_rows[of _ uuid projectId 0 0 ol]
    by (auto simp: commit_outline_eq clearSlides_eq)
  have fk: "\<forall>v\<in>set (db_versions (snd (commit_outline uuid projectId ol w))).
        \<exists>r\<in>set (db_slides (snd (commit_outline uuid projectId ol w))).
           slide_id r = iv_slide_id v"
    if all: "\<forall>v\<in>set (db_versions w). \<exists>r\<in>set (db_slides w). slide_id r = iv_slide_id v"
  proof
    fix v assume "v \<in> set (db_versions (snd (commit_outline uuid projectId ol w)))"
    then have v: "v \<in> set (db_versions w)"
      and keep: "\<not> (\<exists>r\<in>set (db_slides w). project_id r = projectId \<and> slide_id r = iv_slide_id v)"
      by (simp_all add: commit_outline_eq vs)
    from all v obtain r where r: "r \<in> set (db_slides w)" "slide_id r = iv_slide_id v"
      by blast
    with keep have "project_id r \<noteq> projectId" by blast
    with r have "r \<in> set (db_slides (snd (commit_outline uuid projectId ol w)))"
      by (simp add: commit_outline_eq clearSlides_eq)
    with r(2) show "\<exists>r\<in>set (db_slides (snd (commit_outline uuid projectId ol w))).
           slide_id r = iv_slide_id v" by blast
  qed
  show ?thesis
    using vs pend fk
    by (simp add: commit_outline_eq insert_sections_length) (simp add: clearSlides_eq)
qed

theorem outline_commit_clears_witness:
  "db_versions (snd (commit_outline (\<lambda>k. replicate (Suc k) CHR ''n'') ''p''
      [\<lparr>sec_title = ''Intro'', sec_slides = [\<lparr>os_title = ''Cover'', os_summary = ''c''\<rparr>,
                                               \<lparr>os_title = ''Agenda'', os_summary = ''a''\<rparr>]\<rparr>]
      demo_world)) = [] \<and>
   map (\<lambda>r. (slide_id r, status r))
     (db_slides (snd (commit_outline (\<lambda>k. replicate (Suc k) CHR ''n'') ''p''
      [\<lparr>sec_title = ''Intro'', sec_slides = [\<lparr>os_title = ''Cover'', os_summary = ''c''\<rparr>,
                                               \<lparr>os_title = ''Agenda'', os_summary = ''a''\<rparr>]\<rparr>]
      demo_world))) = [(''n'', Pending), (''nn'', Pending)]"
  using outline_commit_clears [of "''p''" demo_world "\<lambda>k. replicate (Suc k) CHR ''n''"
      "[\<lparr>sec_title = ''Intro'', sec_slides = [\<lparr>os_title = ''Cover'', os_summary = ''c''\<rparr>,
                                               \<lparr>os_title = ''Agenda'', os_summary = ''a''\<rparr>]\<rparr>]"]
  by (simp add: demo_world_def demo_slide1_def demo_slide2_def demo_slide3_def
      demo_version1_def demo_version2_def new_slide_row_def enumerate_eq_zip upt_rec)

section \<open>Properties of the Images stage\<close>

subsection \<open>The slides of the stage\<close>







lemma stage_slides_index:
  "map ss_deckIndex (stage_slides ev w pid) = [0..<length (ordered_slides w pid)]"
proof -
  have "map ss_deckIndex (map (\<lambda>(idx, r). \<lparr>ss_id = slide_id r, ss_title = title r,
                       ss_content = tryParseSlideContent ev (content_json r),
                       ss_deckIndex = idx\<rparr>) xs) = map fst xs" for xs
    by (induction xs) auto
  then have "map ss_deckIndex (stage_slides ev w pid) = map fst (enumerate 0 (ordered_slides w pid))"
    by (simp only: stage_slides_def)
  then show ?thesis
    by (simp add: map_fst_enumerate)
qed

lemma stage_slides_length: "length (stage_slides ev w pid) = length (ordered_slides w pid)"
  by (simp add: stage_slides_def)

subsection \<open>The marks of the units\<close>


lemma mark_end_id [simp]: "slide_id (mark_end resp f r) = slide_id r"
  by (simp add: mark_end_def final_slide_def split: inflight.splits option.splits)

lemma mark_end_other [simp]:
  "mark_end resp (Regenerating sid resolved promptText) = (\<lambda>r. r)"
  "mark_end resp (Restoring sid resolved') = (\<lambda>r. r)"
  by (rule ext, simp add: mark_end_def)+

lemma mark_end_unit_of [simp]:
  "mark_end resp (unit_of ev th w s) r =
     (if slide_id r = ss_id s then final_slide (response_error (resp (ss_deckIndex s))) r else r)"
  by (simp add: mark_end_def unit_of_def)

lemma unit_ok_unit_of [simp]:
  "unit_ok resp (unit_of ev th w s) \<longleftrightarrow> response_error (resp (ss_deckIndex s)) = None"
  "unit_bad resp (unit_of ev th w s) \<longleftrightarrow> response_error (resp (ss_deckIndex s)) \<noteq> None"
  by (simp_all add: unit_ok_def unit_bad_def unit_of_def)


lemma final_slide_id [simp]: "slide_id (final_slide err r) = slide_id r"
  by (simp add: final_slide_def split: option.splits)




subsection \<open>The effect of one unit\<close>

lemma next_image_version_patch [simp]:
  "next_image_version (setSlideStatus_patch sid st msg c w) k = next_image_version w k"
  by (rule next_image_version_cong) simp



lemma job_progress_core [simp]:
  "(ir_job (report_progress n st))\<lparr>job_progress := None\<rparr> = (ir_job st)\<lparr>job_progress := None\<rparr>"
  by (simp add: report_progress_def)

lemma report_progress_fields [simp]:
  "ir_world (report_progress n st) = ir_world st"
  "ir_completed (report_progress n st) = ir_completed st"
  "ir_failed (report_progress n st) = ir_failed st"
  "ir_waiting (report_progress n st) = ir_waiting st"
  by (simp_all add: report_progress_def)




lemma mark_end_ids [simp]: "map slide_id (map (mark_end resp f) rows) = map slide_id rows"
  by (simp add: comp_def)

lemma fold_mark_end_id [simp]: "slide_id (fold (mark_end resp) W r) = slide_id r"
  by (induction W arbitrary: r) simp_all

lemma fold_mark_end_ids [simp]:
  "map slide_id (map (fold (mark_end resp) W) rows) = map slide_id rows"
  by (simp add: comp_def)

subsection \<open>The two phases of the stage\<close>





subsection \<open>One row at the end of the stage\<close>













subsection \<open>The stage as a whole\<close>





end
